theory Spec2Isabelle
  imports Complex_Main "HOL-Library.AList"
begin

section \<open>Values\<close>

text \<open>
  The scripts and the API work on values produced by \<^verbatim>\<open>JSON.parse\<close>. An object is
  kept as the list of its own properties in the order of \<^verbatim>\<open>Object.keys\<close>; a property
  is read with \<open>map_of\<close>. Numbers are integers here (a fractional number is truthy like
  every non-zero integer, and no function below computes with record fields).
  \<open>ServerTimestamp\<close> is the sentinel \<^verbatim>\<open>admin.firestore.FieldValue.serverTimestamp()\<close>
  which the migration puts into the documents it writes. \<open>Inherited key\<close> is the member
  \<open>key\<close> of \<^verbatim>\<open>Object.prototype\<close> (a function, or for \<^verbatim>\<open>__proto__\<close> the prototype
  itself), which a read of a property of that name finds on an object that has no such
  property of its own. \<^verbatim>\<open>undefined\<close> is \<open>None\<close> of \<open>json option\<close>.

  A string is kept as the list of the bytes of its UTF-8 encoding (an unpaired surrogate as
  the three bytes that the generalised encoding gives it): every string of the program is
  one such list, and two strings are equal when their lists are. The functions that look
  into the characters of a string are written on these bytes.
\<close>

datatype json =
    JNull
  | JBool bool
  | JNum int
  | JStr string
  | JArr "json list"
  | JObj "(string \<times> json) list"
  | ServerTimestamp
  | Inherited string

type_synonym fields = "(string \<times> json) list"

text \<open>Every \<^verbatim>\<open>throw\<close> of the source, and the \<^verbatim>\<open>TypeError\<close> of reading a property of
  \<^verbatim>\<open>null\<close>, is a value of this type.\<close>

datatype error =
    FILE_NOT_FOUND string
  | JSONSyntaxError string
  | StorageError string
  | NoArrayFound string
  | InvalidJSONStructure string
  | TypeError
  | InvalidConfigStructure
  | ConfigurationUnavailable

fun truthy :: "json \<Rightarrow> bool" where
  "truthy JNull = False"
| "truthy (JBool b) = b"
| "truthy (JNum n) = (n \<noteq> 0)"
| "truthy (JStr s) = (s \<noteq> [])"
| "truthy (JArr xs) = True"
| "truthy (JObj kvs) = True"
| "truthy ServerTimestamp = True"
| "truthy (Inherited key) = True"

fun truthy_opt :: "json option \<Rightarrow> bool" where
  "truthy_opt None = False"
| "truthy_opt (Some v) = truthy v"

text \<open>\<^verbatim>\<open>Array.isArray(data[key])\<close> on an object \<open>data\<close>: the array under \<open>key\<close>, if there is one.\<close>

definition arrayAt :: "fields \<Rightarrow> string \<Rightarrow> json list option" where
  "arrayAt kvs key = (case map_of kvs key of Some (JArr xs) \<Rightarrow> Some xs | _ \<Rightarrow> None)"

section \<open>Storage reader: \<^verbatim>\<open>extractArrayFromJSON\<close>\<close>

definition possibleKeys :: "string list" where
  "possibleKeys = [''data'', ''items'', ''results'', ''categories'', ''prompts'',
                   ''promptDetails'', ''list'']"

text \<open>The older script \<^verbatim>\<open>migrate-to-firestore.js\<close> has the same function with one more key.\<close>

definition possibleKeys_v1 :: "string list" where
  "possibleKeys_v1 = [''data'', ''items'', ''results'', ''categories'', ''prompts'',
                      ''promptDetails'', ''list'', ''records'']"

text \<open>Both \<^verbatim>\<open>for (const key of ...)\<close> loops: the array under the first key that holds one.\<close>

fun firstArray :: "fields \<Rightarrow> string list \<Rightarrow> json list option" where
  "firstArray kvs [] = None"
| "firstArray kvs (key # keys) =
     (case arrayAt kvs key of Some xs \<Rightarrow> Some xs | None \<Rightarrow> firstArray kvs keys)"

definition extractArrayWith :: "string list \<Rightarrow> json \<Rightarrow> string \<Rightarrow> error + json list" where
  "extractArrayWith pkeys data fileName =
     (case data of
        JArr xs \<Rightarrow> Inr xs
      | JObj kvs \<Rightarrow>
          (case firstArray kvs pkeys of
             Some xs \<Rightarrow> Inr xs
           | None \<Rightarrow>
               (case firstArray kvs (map fst kvs) of
                  Some xs \<Rightarrow> Inr xs
                | None \<Rightarrow> Inl (NoArrayFound fileName)))
      | _ \<Rightarrow> Inl (InvalidJSONStructure fileName))"

definition extractArrayFromJSON :: "json \<Rightarrow> string \<Rightarrow> error + json list" where
  "extractArrayFromJSON = extractArrayWith possibleKeys"

definition extractArrayFromJSON_v1 :: "json \<Rightarrow> string \<Rightarrow> error + json list" where
  "extractArrayFromJSON_v1 = extractArrayWith possibleKeys_v1"

section \<open>Read API: pagination\<close>

text \<open>
  The numbers that the pagination computes with: the integers, the two infinities and
  \<^verbatim>\<open>NaN\<close>. \<^verbatim>\<open>-0\<close> is not told apart from \<open>0\<close> (the one place it could come from,
  \<^verbatim>\<open>parseInt("-0")\<close>, is falsy and gives way to the default).
\<close>

datatype number = NaN | Finite int | PosInfinity | NegInfinity

text \<open>
  The number that an integer gives: the integer itself below \<open>2^53\<close> in magnitude, above it
  the nearest integer that a double can hold (53 significant bits, a tie to the even one),
  and an infinity where that is \<open>2^1024\<close> or more. \<open>bitLength n\<close> is the number of bits of
  \<open>n\<close>. (For a decimal of more than 20 digits the language lets an engine round from the
  first 20 digits only; the properties of the sanitized values below hold for every value
  of \<^verbatim>\<open>parseInt\<close>, and the runs use shorter numerals or one that overflows either way.)
\<close>

fun bitLength :: "nat \<Rightarrow> nat" where
  "bitLength n = (if n = 0 then 0 else Suc (bitLength (n div 2)))"

declare bitLength.simps [simp del]

definition toNumber :: "int \<Rightarrow> number" where
  "toNumber n =
     (let a = nat \<bar>n\<bar> in
      if a < 2 ^ 53 then Finite n
      else (let e = bitLength a - 53;
                q = a div 2 ^ e;
                r = a mod 2 ^ e;
                q' = (if 2 ^ (e - 1) < r \<or> (r = 2 ^ (e - 1) \<and> odd q) then q + 1 else q)
            in if 2 ^ 1024 \<le> q' * 2 ^ e
               then (if 0 < n then PosInfinity else NegInfinity)
               else Finite (sgn n * int (q' * 2 ^ e))))"

text \<open>
  \<^verbatim>\<open>parseInt(x)\<close> with no radix, on the string that \<^verbatim>\<open>ToString(x)\<close> gives: leading white
  space is dropped, then an optional sign, then an optional \<^verbatim>\<open>0x\<close>/\<^verbatim>\<open>0X\<close> prefix (which
  selects base 16), then the longest run of digits; no digit gives \<^verbatim>\<open>NaN\<close>. The result is
  the number that the integer so written gives. White space is the white space and the line
  terminators of the language: TAB, LF, VT, FF, CR, SP, and U+00A0, U+1680, U+2000 to
  U+200A, U+2028, U+2029, U+202F, U+205F, U+3000 and U+FEFF, each as the bytes of its
  encoding.
\<close>

definition strWhiteSpace :: "string list" where
  "strWhiteSpace =
     [[CHR 0x09], [CHR 0x0A], [CHR 0x0B], [CHR 0x0C], [CHR 0x0D], [CHR 0x20],
      [CHR 0xC2, CHR 0xA0], [CHR 0xE1, CHR 0x9A, CHR 0x80],
      [CHR 0xE2, CHR 0x80, CHR 0x80], [CHR 0xE2, CHR 0x80, CHR 0x81],
      [CHR 0xE2, CHR 0x80, CHR 0x82], [CHR 0xE2, CHR 0x80, CHR 0x83],
      [CHR 0xE2, CHR 0x80, CHR 0x84], [CHR 0xE2, CHR 0x80, CHR 0x85],
      [CHR 0xE2, CHR 0x80, CHR 0x86], [CHR 0xE2, CHR 0x80, CHR 0x87],
      [CHR 0xE2, CHR 0x80, CHR 0x88], [CHR 0xE2, CHR 0x80, CHR 0x89],
      [CHR 0xE2, CHR 0x80, CHR 0x8A], [CHR 0xE2, CHR 0x80, CHR 0xA8],
      [CHR 0xE2, CHR 0x80, CHR 0xA9], [CHR 0xE2, CHR 0x80, CHR 0xAF],
      [CHR 0xE2, CHR 0x81, CHR 0x9F], [CHR 0xE3, CHR 0x80, CHR 0x80],
      [CHR 0xEF, CHR 0xBB, CHR 0xBF]]"

text \<open>\<open>s\<close> starts with the character \<open>w\<close>.\<close>

definition startsWith :: "string \<Rightarrow> string \<Rightarrow> bool" where
  "startsWith s w \<longleftrightarrow> w \<noteq> [] \<and> take (length w) s = w"

function skipWhiteSpace :: "string \<Rightarrow> string" where
  "skipWhiteSpace s =
     (case find (startsWith s) strWhiteSpace of
        None \<Rightarrow> s
      | Some w \<Rightarrow> skipWhiteSpace (drop (length w) s))"
  by pat_completeness auto
termination
proof (relation "measure length")
  show "wf (measure length)" by simp
next
  fix s :: string and w
  assume "find (startsWith s) strWhiteSpace = Some w"
  then have "w \<noteq> []" "take (length w) s = w"
    by (auto simp: find_Some_iff startsWith_def)
  then have "0 < length w" "length (take (length w) s) = length w"
    by simp_all
  then show "(drop (length w) s, s) \<in> measure length"
    by (cases s) auto
qed

declare skipWhiteSpace.simps [simp del]

definition decDigits :: "(char \<times> int) list" where
  "decDigits = [(CHR ''0'', 0), (CHR ''1'', 1), (CHR ''2'', 2), (CHR ''3'', 3), (CHR ''4'', 4),
                (CHR ''5'', 5), (CHR ''6'', 6), (CHR ''7'', 7), (CHR ''8'', 8), (CHR ''9'', 9)]"

definition hexDigits :: "(char \<times> int) list" where
  "hexDigits = decDigits @
     [(CHR ''a'', 10), (CHR ''b'', 11), (CHR ''c'', 12), (CHR ''d'', 13), (CHR ''e'', 14),
      (CHR ''f'', 15), (CHR ''A'', 10), (CHR ''B'', 11), (CHR ''C'', 12), (CHR ''D'', 13),
      (CHR ''E'', 14), (CHR ''F'', 15)]"

fun digitsValue :: "(char \<times> int) list \<Rightarrow> int \<Rightarrow> int \<Rightarrow> string \<Rightarrow> int" where
  "digitsValue tbl R acc [] = acc"
| "digitsValue tbl R acc (c # cs) =
     (case map_of tbl c of
        Some d \<Rightarrow> digitsValue tbl R (acc * R + d) cs
      | None \<Rightarrow> acc)"

definition parseDigits :: "(char \<times> int) list \<Rightarrow> int \<Rightarrow> string \<Rightarrow> int option" where
  "parseDigits tbl R S =
     (case S of
        [] \<Rightarrow> None
      | c # cs \<Rightarrow> (if map_of tbl c = None then None else Some (digitsValue tbl R 0 S)))"

definition stripPrefix :: "string \<Rightarrow> int option" where
  "stripPrefix S =
     (case S of
        c0 # c1 # rest \<Rightarrow>
          (if c0 = CHR ''0'' \<and> (c1 = CHR ''x'' \<or> c1 = CHR ''X'')
           then parseDigits hexDigits 16 rest
           else parseDigits decDigits 10 S)
      | _ \<Rightarrow> parseDigits decDigits 10 S)"

definition parseInt :: "string \<Rightarrow> number" where
  "parseInt inputString =
     (case skipWhiteSpace inputString of
        [] \<Rightarrow> NaN
      | c # cs \<Rightarrow>
          (case (if c = CHR ''-'' then map_option uminus (stripPrefix cs)
                 else if c = CHR ''+'' then stripPrefix cs
                 else stripPrefix (c # cs)) of
             None \<Rightarrow> NaN
           | Some n \<Rightarrow> toNumber n))"

text \<open>\<^verbatim>\<open>parseInt(x) || d\<close>: \<^verbatim>\<open>NaN\<close> and \<open>0\<close> are falsy.\<close>

definition orDefault :: "number \<Rightarrow> int \<Rightarrow> number" where
  "orDefault v d = (if v = NaN \<or> v = Finite 0 then Finite d else v)"

text \<open>The comparison \<^verbatim>\<open>x <= y\<close>, and \<^verbatim>\<open>Math.max\<close> and \<^verbatim>\<open>Math.min\<close> of two numbers.\<close>

fun numLe :: "number \<Rightarrow> number \<Rightarrow> bool" where
  "numLe NaN y = False"
| "numLe x NaN = False"
| "numLe NegInfinity y = True"
| "numLe x PosInfinity = True"
| "numLe (Finite a) (Finite b) = (a \<le> b)"
| "numLe PosInfinity y = False"
| "numLe x NegInfinity = False"

definition mathMax :: "number \<Rightarrow> number \<Rightarrow> number" where
  "mathMax x y = (if x = NaN \<or> y = NaN then NaN else if numLe x y then y else x)"

definition mathMin :: "number \<Rightarrow> number \<Rightarrow> number" where
  "mathMin x y = (if x = NaN \<or> y = NaN then NaN else if numLe x y then x else y)"

text \<open>
  Sum, difference and product, and \<^verbatim>\<open>Math.ceil(x / y)\<close>. On integers they are exact here.
  JavaScript rounds a sum or a product above \<open>2^53\<close> to a double; that is beyond the
  length of every array, so that it makes no difference to what \<^verbatim>\<open>slice\<close> returns below.
  It rounds the quotient too, by less than the distance of \<open>a / b\<close> to the next integer
  while \<open>a\<close> is below \<open>2^46\<close> and \<open>b\<close> at most \<open>100\<close> (an array has fewer than \<open>2^32\<close>
  items), so that the ceiling is the exact one.
\<close>

fun numAdd :: "number \<Rightarrow> number \<Rightarrow> number" where
  "numAdd NaN y = NaN"
| "numAdd x NaN = NaN"
| "numAdd (Finite a) (Finite b) = Finite (a + b)"
| "numAdd PosInfinity NegInfinity = NaN"
| "numAdd NegInfinity PosInfinity = NaN"
| "numAdd PosInfinity y = PosInfinity"
| "numAdd NegInfinity y = NegInfinity"
| "numAdd x PosInfinity = PosInfinity"
| "numAdd x NegInfinity = NegInfinity"

fun numNeg :: "number \<Rightarrow> number" where
  "numNeg NaN = NaN"
| "numNeg (Finite a) = Finite (- a)"
| "numNeg PosInfinity = NegInfinity"
| "numNeg NegInfinity = PosInfinity"

definition numSub :: "number \<Rightarrow> number \<Rightarrow> number" where
  "numSub x y = numAdd x (numNeg y)"

text \<open>An infinity of the sign of \<open>s\<close>, \<^verbatim>\<open>NaN\<close> for \<open>s = 0\<close>.\<close>

definition infinityOf :: "int \<Rightarrow> number" where
  "infinityOf s = (if s = 0 then NaN else if 0 < s then PosInfinity else NegInfinity)"

fun numMul :: "number \<Rightarrow> number \<Rightarrow> number" where
  "numMul NaN y = NaN"
| "numMul x NaN = NaN"
| "numMul (Finite a) (Finite b) = Finite (a * b)"
| "numMul (Finite a) PosInfinity = infinityOf a"
| "numMul (Finite a) NegInfinity = infinityOf (- a)"
| "numMul PosInfinity (Finite b) = infinityOf b"
| "numMul NegInfinity (Finite b) = infinityOf (- b)"
| "numMul PosInfinity PosInfinity = PosInfinity"
| "numMul NegInfinity NegInfinity = PosInfinity"
| "numMul PosInfinity NegInfinity = NegInfinity"
| "numMul NegInfinity PosInfinity = NegInfinity"

fun mathCeilDiv :: "number \<Rightarrow> number \<Rightarrow> number" where
  "mathCeilDiv NaN y = NaN"
| "mathCeilDiv x NaN = NaN"
| "mathCeilDiv (Finite a) (Finite b) = (if b = 0 then infinityOf a else Finite (- ((- a) div b)))"
| "mathCeilDiv (Finite a) y = Finite 0"
| "mathCeilDiv PosInfinity (Finite b) = (if 0 \<le> b then PosInfinity else NegInfinity)"
| "mathCeilDiv NegInfinity (Finite b) = (if 0 \<le> b then NegInfinity else PosInfinity)"
| "mathCeilDiv x y = NaN"

text \<open>\<^verbatim>\<open>Array.prototype.slice(start, end)\<close>: an index that is \<^verbatim>\<open>NaN\<close> counts as \<open>0\<close>, a
  negative one counts from the end, and each is brought into the array.\<close>

definition relativeIndex :: "int \<Rightarrow> number \<Rightarrow> int" where
  "relativeIndex len i =
     (case i of
        Finite n \<Rightarrow> if n < 0 then max (len + n) 0 else min n len
      | PosInfinity \<Rightarrow> len
      | _ \<Rightarrow> 0)"

definition slice :: "'a list \<Rightarrow> number \<Rightarrow> number \<Rightarrow> 'a list" where
  "slice array start end' =
     (let len = int (length array);
          k = relativeIndex len start;
          final = relativeIndex len end'
      in take (nat (max (final - k) 0)) (drop (nat k) array))"

record 'a page =
  page :: number
  limit :: number
  total :: int
  totalPages :: number
  pageData :: "'a list"

text \<open>
  \<^verbatim>\<open>paginate(array, page = 1, limit = 10)\<close> of the storage-backed API. The two query
  parameters arrive as \<open>None\<close> (\<^verbatim>\<open>undefined\<close>, for which the default parameter is used) or
  as the string that \<^verbatim>\<open>parseInt\<close> sees.
\<close>

definition paginate :: "'a list \<Rightarrow> string option \<Rightarrow> string option \<Rightarrow> 'a page" where
  "paginate array page0 limit0 =
     (let page1 = mathMax (Finite 1)
                    (orDefault (parseInt (case page0 of None \<Rightarrow> ''1'' | Some s \<Rightarrow> s)) 1);
          limit1 = mathMin (Finite 100) (mathMax (Finite 1)
                     (orDefault (parseInt (case limit0 of None \<Rightarrow> ''10'' | Some s \<Rightarrow> s)) 10));
          start = numMul (numSub page1 (Finite 1)) limit1;
          end' = numAdd start limit1
      in \<lparr> page = page1,
           limit = limit1,
           total = int (length array),
           totalPages = mathCeilDiv (Finite (int (length array))) limit1,
           pageData = slice array start end' \<rparr>)"

text \<open>
  \<^verbatim>\<open>queryWithPagination(collectionRef, page = 1, limit = 10)\<close> of the Firestore-backed API.
  The query \<open>collectionRef\<close> is given by what its two reads return: \<^verbatim>\<open>count().get()\<close> the
  number of documents, \<^verbatim>\<open>offset(o).limit(l).get()\<close> the documents of the page, each with
  its id; \<open>None\<close> when the read throws (the client library refuses an offset that is not
  an integer, the database can fail), which the function re-throws.
\<close>

record query =
  countGet :: "int option"
  offsetLimitGet :: "number \<Rightarrow> number \<Rightarrow> (string \<times> fields) list option"

definition docWithId :: "string \<times> fields \<Rightarrow> json" where
  "docWithId d = JObj (fold (\<lambda>(k, v). AList.update k v) (snd d) [(''_id'', JStr (fst d))])"

definition queryWithPagination ::
  "query \<Rightarrow> string option \<Rightarrow> string option \<Rightarrow> unit + json page" where
  "queryWithPagination collectionRef page0 limit0 =
     (let page1 = mathMax (Finite 1)
                    (orDefault (parseInt (case page0 of None \<Rightarrow> ''1'' | Some s \<Rightarrow> s)) 1);
          limit1 = mathMin (Finite 100) (mathMax (Finite 1)
                     (orDefault (parseInt (case limit0 of None \<Rightarrow> ''10'' | Some s \<Rightarrow> s)) 10))
      in case countGet collectionRef of
           None \<Rightarrow> Inl ()
         | Some total1 \<Rightarrow>
             (let offset = numMul (numSub page1 (Finite 1)) limit1;
                  totalPages1 = mathCeilDiv (Finite total1) limit1
              in case offsetLimitGet collectionRef offset limit1 of
                   None \<Rightarrow> Inl ()
                 | Some docs \<Rightarrow>
                     Inr \<lparr> page = page1,
                           limit = limit1,
                           total = total1,
                           totalPages = totalPages1,
                           pageData = map docWithId docs \<rparr>))"

text \<open>A query on a database that answers, over the documents \<open>docs\<close> in the order of the
  query.\<close>

definition listQuery :: "(string \<times> fields) list \<Rightarrow> query" where
  "listQuery docs =
     \<lparr> countGet = Some (int (length docs)),
       offsetLimitGet = (\<lambda>offset limit.
         case (offset, limit) of
           (Finite k, Finite n) \<Rightarrow>
             if 0 \<le> k \<and> 0 \<le> n then Some (take (nat n) (drop (nat k) docs)) else None
         | _ \<Rightarrow> None) \<rparr>"

text \<open>The body that \<^verbatim>\<open>/getCategoryList\<close> sends on success:
  \<^verbatim>\<open>{success: true, message: "...", ...paginated}\<close>. In JSON a number that is not finite
  is written \<^verbatim>\<open>null\<close>.\<close>

definition numJSON :: "number \<Rightarrow> json" where
  "numJSON x = (case x of Finite n \<Rightarrow> JNum n | _ \<Rightarrow> JNull)"

definition categoryListBody :: "json page \<Rightarrow> json" where
  "categoryListBody paginated =
     JObj [(''success'', JBool True),
           (''message'', JStr ''Category data fetched successfully''),
           (''page'', numJSON (page paginated)),
           (''limit'', numJSON (limit paginated)),
           (''total'', JNum (total paginated)),
           (''totalPages'', numJSON (totalPages paginated)),
           (''data'', JArr (pageData paginated))]"

text \<open>The integer that a finite number is.\<close>

definition intOf :: "number \<Rightarrow> int" where
  "intOf x = (case x of Finite n \<Rightarrow> n | _ \<Rightarrow> 0)"

text \<open>The own properties of a value: those of an object, none for anything else.\<close>

definition objFields :: "json \<Rightarrow> fields" where
  "objFields v = (case v of JObj kvs \<Rightarrow> kvs | _ \<Rightarrow> [])"

section \<open>Object storage\<close>

text \<open>
  The bucket, as \<^verbatim>\<open>fetchJSONFromStorage\<close> sees a path: no such file, a failing remote call,
  contents that \<^verbatim>\<open>JSON.parse\<close> rejects, or contents that parse to a value.
\<close>

datatype blob = NoFile | Unreachable | Garbage | Contents json

type_synonym bucket = "string \<Rightarrow> blob"

definition fetchJSONFromStorage :: "bucket \<Rightarrow> string \<Rightarrow> error + json" where
  "fetchJSONFromStorage storage fileName =
     (case storage (''data/'' @ fileName) of
        NoFile \<Rightarrow> Inl (FILE_NOT_FOUND fileName)
      | Unreachable \<Rightarrow> Inl (StorageError fileName)
      | Garbage \<Rightarrow> Inl (JSONSyntaxError fileName)
      | Contents v \<Rightarrow> Inr v)"

text \<open>\<^verbatim>\<open>value.key\<close>: a \<^verbatim>\<open>TypeError\<close> on \<^verbatim>\<open>null\<close>, the own property of an object,
  \<^verbatim>\<open>undefined\<close> on every other value (the keys read below are no built-in property of a
  string, a number or an array).\<close>

definition getProp :: "json \<Rightarrow> string \<Rightarrow> error + json option" where
  "getProp v key = (case v of JNull \<Rightarrow> Inl TypeError | _ \<Rightarrow> Inr (map_of (objFields v) key))"

section \<open>Read API: the configuration cache\<close>

record config_state =
  configCache :: "json option"
  configLastFetched :: "int option"

definition CONFIG_CACHE_TTL :: int where
  "CONFIG_CACHE_TTL = 5 * 60 * 1000"

text \<open>The body of the \<^verbatim>\<open>try\<close> block of \<^verbatim>\<open>getConfig\<close> up to the assignments: the fetch and
  the validation of the structure.\<close>

definition fetchConfig :: "bucket \<Rightarrow> error + json" where
  "fetchConfig storage =
     (case fetchJSONFromStorage storage ''config.json'' of
        Inl e \<Rightarrow> Inl e
      | Inr config \<Rightarrow>
          (case getProp config ''categoryMap'' of
             Inl e \<Rightarrow> Inl e
           | Inr categoryMap \<Rightarrow>
               if \<not> truthy_opt categoryMap then Inl InvalidConfigStructure
               else (case getProp config ''promptDetailsFiles'' of
                       Inl e \<Rightarrow> Inl e
                     | Inr promptDetailsFiles \<Rightarrow>
                         if \<not> truthy_opt promptDetailsFiles then Inl InvalidConfigStructure
                         else Inr config)))"

text \<open>\<^verbatim>\<open>getConfig()\<close> with the clock reading \<open>now\<close> of \<^verbatim>\<open>Date.now()\<close>; the two module
  variables are passed in and returned. \<open>truthyCache\<close> is \<^verbatim>\<open>configCache\<close> where the source
  tests it for truthiness.\<close>

definition truthyCache :: "config_state \<Rightarrow> json option" where
  "truthyCache st =
     (case configCache st of None \<Rightarrow> None | Some c \<Rightarrow> if truthy c then Some c else None)"

definition getConfig :: "bucket \<Rightarrow> int \<Rightarrow> config_state \<Rightarrow> (error + json) \<times> config_state" where
  "getConfig storage now st =
     (case (case configLastFetched st of
              None \<Rightarrow> None
            | Some t \<Rightarrow> if t \<noteq> 0 \<and> now - t < CONFIG_CACHE_TTL then truthyCache st else None) of
        Some c \<Rightarrow> (Inr c, st)
      | None \<Rightarrow>
          (case fetchConfig storage of
             Inr config \<Rightarrow>
               (Inr config, st\<lparr>configCache := Some config, configLastFetched := Some now\<rparr>)
           | Inl e \<Rightarrow>
               (case truthyCache st of
                  Some c \<Rightarrow> (Inr c, st)
                | None \<Rightarrow> (Inl ConfigurationUnavailable, st))))"

text \<open>What holds of the two variables between calls: a cached value was accepted by
  \<open>fetchConfig\<close> (so it is an object), and a fetch time is a clock reading, which is
  positive.\<close>

definition cacheInv :: "config_state \<Rightarrow> bool" where
  "cacheInv st \<longleftrightarrow>
     (case configCache st of None \<Rightarrow> True | Some c \<Rightarrow> truthy c)
     \<and> (case configLastFetched st of None \<Rightarrow> True | Some t \<Rightarrow> 0 < t)"

definition initialConfig :: config_state where
  "initialConfig = \<lparr>configCache = None, configLastFetched = None\<rparr>"

text \<open>The values the two variables can have in a process: \<^verbatim>\<open>null\<close> at the start, and
  what a call of \<^verbatim>\<open>getConfig\<close> leaves, at any positive clock reading and for any content
  of the storage.\<close>

inductive reachable :: "config_state \<Rightarrow> bool" where
  start: "reachable initialConfig"
| call: "reachable st \<Longrightarrow> 0 < now \<Longrightarrow> reachable (snd (getConfig storage now st))"

section \<open>Read API: the API key and the routes\<close>

text \<open>
  A request, as the middleware sees it: the method, the path, the \<^verbatim>\<open>x-api-key\<close> header
  (\<open>None\<close> when the request has none), and what the JSON body parser does with the body:
  \<open>bodyError\<close> is the status of the error with which \<^verbatim>\<open>express.json()\<close> rejects it (400
  for a body that is not JSON, 413 for one over the limit), \<open>None\<close> when the parser passes
  the request on.
\<close>

record request =
  reqMethod :: string
  reqPath :: string
  xApiKey :: "string option"
  bodyError :: "nat option"

record response =
  status :: nat
  body :: json

definition forbidden :: response where
  "forbidden =
     \<lparr> status = 403,
       body = JObj [(''success'', JBool False),
                    (''message'', JStr (''Forbidden '' @ [CHR 0xE2, CHR 0x80, CHR 0x94]
                                        @ '' Invalid or missing API key''))] \<rparr>"

text \<open>\<^verbatim>\<open>verifyAPIKey\<close>: \<open>Some\<close> is the response it sends, \<open>None\<close> is \<^verbatim>\<open>next()\<close>. The test is
  \<^verbatim>\<open>!receivedKey || receivedKey !== expectedKey\<close>: a missing header and an empty one are
  falsy.\<close>

definition verifyAPIKey :: "string \<Rightarrow> request \<Rightarrow> response option" where
  "verifyAPIKey expectedKey req =
     (let receivedKey = xApiKey req in
      if (case receivedKey of None \<Rightarrow> True | Some k \<Rightarrow> k = [])
         \<or> receivedKey \<noteq> Some expectedKey
      then Some forbidden
      else None)"

datatype route = Health | GetCategory | GetCategoryList | GetPromptDetails | NoRoute

text \<open>The routes in the order of their registration; \<^verbatim>\<open>app.get\<close> also serves \<^verbatim>\<open>HEAD\<close>.
  The path is the one Express matches after its normalisation.\<close>

definition router :: "request \<Rightarrow> route" where
  "router req =
     (let m = reqMethod req; p = reqPath req in
      if (m = ''GET'' \<or> m = ''HEAD'') \<and> p = ''/health'' then Health
      else if (m = ''GET'' \<or> m = ''HEAD'') \<and> p = ''/getCategory'' then GetCategory
      else if m = ''POST'' \<and> p = ''/getCategoryList'' then GetCategoryList
      else if m = ''POST'' \<and> p = ''/getPromptDetails'' then GetPromptDetails
      else NoRoute)"

definition healthResponse :: "string \<Rightarrow> response" where
  "healthResponse isoTime =
     \<lparr> status = 200,
       body = JObj [(''success'', JBool True), (''message'', JStr ''API is running''),
                    (''timestamp'', JStr isoTime)] \<rparr>"

definition notFoundResponse :: "request \<Rightarrow> response" where
  "notFoundResponse req =
     \<lparr> status = 404,
       body = JObj [(''success'', JBool False),
                    (''message'', JStr (''Route '' @ reqMethod req @ '' '' @ reqPath req
                                        @ '' not found''))] \<rparr>"

text \<open>
  The application as Express runs it, in the order of the \<^verbatim>\<open>app.use\<close> calls. The
  \<^verbatim>\<open>cors\<close> middleware comes first: it ends a preflight (every request of method
  \<^verbatim>\<open>OPTIONS\<close>) with status 204 and passes every other request on. Then
  \<^verbatim>\<open>express.json()\<close>: a body it rejects goes to the error handler of Express, which ends
  the response with the status of the error. Then \<^verbatim>\<open>verifyAPIKey\<close>, which is registered
  before every route, so it runs for every method and path that gets this far. The result
  is the status with which a library ended the response (\<open>Ended\<close>), the response the
  application sent (\<open>Responded\<close>), or the data handler that runs (\<open>Runs\<close>).
\<close>

datatype outcome = Ended nat | Responded response | Runs route

definition app :: "string \<Rightarrow> string \<Rightarrow> request \<Rightarrow> outcome" where
  "app expectedKey isoTime req =
     (if reqMethod req = ''OPTIONS'' then Ended 204
      else (case bodyError req of
              Some s \<Rightarrow> Ended s
            | None \<Rightarrow>
                (case verifyAPIKey expectedKey req of
                   Some res \<Rightarrow> Responded res
                 | None \<Rightarrow>
                     (case router req of
                        Health \<Rightarrow> Responded (healthResponse isoTime)
                      | NoRoute \<Rightarrow> Responded (notFoundResponse req)
                      | r \<Rightarrow> Runs r))))"

section \<open>Firestore\<close>

text \<open>
  A collection maps document ids to documents, a document is the list of its fields. The
  database maps the path of a collection (\<^verbatim>\<open>prompts\<close>, or \<^verbatim>\<open>prompts/p1/notes\<close> for a
  sub-collection) to the collection. A batch holds \<^verbatim>\<open>set\<close> operations on document
  references (the path of the collection and the id), with or without
  \<^verbatim>\<open>{merge: true}\<close>; \<^verbatim>\<open>commit\<close> applies all of them or none.

  Without merge, \<^verbatim>\<open>set\<close> replaces the document. With merge, every leaf field of the new
  data is written into the existing document: nested maps are merged field by field, an
  empty map and every other value replace what was there.
\<close>

type_synonym collection = "string \<Rightarrow> fields option"

type_synonym firestore = "string \<Rightarrow> collection"

datatype write_op = SetOp "string \<times> string" fields bool

fun mergeValue :: "json option \<Rightarrow> json \<Rightarrow> json"
  and mergeFields :: "fields \<Rightarrow> fields \<Rightarrow> fields" where
  "mergeValue (Some (JObj old)) (JObj (f # fs)) = JObj (mergeFields old (f # fs))"
| "mergeValue old new = new"
| "mergeFields old [] = old"
| "mergeFields old ((k, v) # new) =
     mergeFields (AList.update k (mergeValue (map_of old k) v) old) new"

definition applyOp :: "write_op \<Rightarrow> firestore \<Rightarrow> firestore" where
  "applyOp w db =
     (case w of
        SetOp (collectionName, k) new merge \<Rightarrow>
          db(collectionName := (db collectionName)(k \<mapsto>
               (if merge
                then mergeFields (case db collectionName k of None \<Rightarrow> [] | Some old \<Rightarrow> old)
                       new
                else new))))"

text \<open>
  Paths. The client library keeps the path of a collection or a document as the list of
  its segments: a path given as a string is cut at every slash and the empty pieces are
  dropped (\<^verbatim>\<open>relativePath.split('/').filter(segment => segment.length > 0)\<close>), after a
  check that the string is not empty and has no \<^verbatim>\<open>//\<close>. So \<^verbatim>\<open>a\<close>, \<^verbatim>\<open>/a\<close> and \<^verbatim>\<open>a/\<close> are
  the same path.
\<close>

fun splitSlash :: "string \<Rightarrow> string list" where
  "splitSlash [] = [[]]"
| "splitSlash (ch # s) =
     (if ch = CHR ''/'' then [] # splitSlash s
      else (case splitSlash s of seg # segs \<Rightarrow> (ch # seg) # segs | [] \<Rightarrow> [[ch]]))"

definition segments :: "string \<Rightarrow> string list" where
  "segments path = filter (\<lambda>seg. seg \<noteq> []) (splitSlash path)"

fun hasDoubleSlash :: "string \<Rightarrow> bool" where
  "hasDoubleSlash (a # b # s) = ((a = CHR ''/'' \<and> b = CHR ''/'') \<or> hasDoubleSlash (b # s))"
| "hasDoubleSlash s = False"

definition validateResourcePath :: "string \<Rightarrow> bool" where
  "validateResourcePath path \<longleftrightarrow> path \<noteq> [] \<and> \<not> hasDoubleSlash path"

fun joinSlash :: "string list \<Rightarrow> string" where
  "joinSlash [] = []"
| "joinSlash [seg] = seg"
| "joinSlash (seg # segs) = seg @ ''/'' @ joinSlash segs"

text \<open>
  \<^verbatim>\<open>db.collection(collectionName)\<close>: the segments of the collection, \<open>None\<close> when the
  library throws (a collection has an odd number of segments). In the database above, a
  collection is found under its segments joined by slashes.
\<close>

definition collectionPath :: "string \<Rightarrow> string list option" where
  "collectionPath collectionName =
     (if validateResourcePath collectionName \<and> odd (length (segments collectionName))
      then Some (segments collectionName)
      else None)"

text \<open>
  \<^verbatim>\<open>db.collection(collectionName).doc(docId)\<close>: the collection and the id of the document
  addressed, \<open>None\<close> when the library throws. It throws unless \<open>docId\<close> is a string that
  passes the check above, and unless the segments of the collection followed by those of
  \<open>docId\<close> are even in number. An id of three segments addresses a document of a
  sub-collection.
\<close>

definition doc :: "string \<Rightarrow> json \<Rightarrow> (string \<times> string) option" where
  "doc collectionName docId =
     (case collectionPath collectionName of
        None \<Rightarrow> None
      | Some coll \<Rightarrow>
          (case docId of
             JStr s \<Rightarrow>
               (let path = coll @ segments s
                in if validateResourcePath s \<and> even (length path)
                   then Some (joinSlash (butlast path), last path)
                   else None)
           | _ \<Rightarrow> None))"

text \<open>What the database and its client library do during one call of the writer, beyond
  the writer's control: whether the key scan throws, whether the commit of batch number
  \<open>n\<close> (from 0) is rejected, and which data \<^verbatim>\<open>batch.set\<close> refuses with an exception
  when it validates them.\<close>

record firestore_env =
  scanFails :: bool
  commitFails :: "nat \<Rightarrow> bool"
  setRejects :: "fields \<Rightarrow> bool"

section \<open>Migration: the batch writer (\<^verbatim>\<open>migrate-to-firestore-v2.js\<close>)\<close>

text \<open>\<^verbatim>\<open>getExistingDocIds\<close>: the ids of the documents of the collection; the empty set when
  \<^verbatim>\<open>db.collection\<close> or the scan throws, which the \<^verbatim>\<open>catch\<close> turns into
  \<^verbatim>\<open>new Set()\<close>.\<close>

definition getExistingDocIds :: "firestore_env \<Rightarrow> firestore \<Rightarrow> string \<Rightarrow> string set" where
  "getExistingDocIds env db collectionName =
     (case collectionPath collectionName of
        None \<Rightarrow> {}
      | Some coll \<Rightarrow> if scanFails env then {} else dom (db (joinSlash coll)))"

text \<open>\<^verbatim>\<open>existingIds.has(docId)\<close>: the set holds strings only.\<close>

definition has :: "string set \<Rightarrow> json \<Rightarrow> bool" where
  "has existingIds docId = (case docId of JStr s \<Rightarrow> s \<in> existingIds | _ \<Rightarrow> False)"

text \<open>An element of the writer's input: \<^verbatim>\<open>{docId, data}\<close>.\<close>

record item =
  docId :: json
  docData :: fields

text \<open>The writer's variables, the database, and the log of the calls of
  \<^verbatim>\<open>batch.commit()\<close> (the operations of the batch, and whether the commit went through).\<close>

record writer =
  successCount :: nat
  errorCount :: nat
  skippedCount :: nat
  store :: firestore
  commits :: "(write_op list \<times> bool) list"

definition batchSize :: nat where
  "batchSize = 500"

text \<open>The body of \<^verbatim>\<open>chunk.forEach\<close>, on the batch under construction, \<^verbatim>\<open>batchCount\<close> and
  the writer's variables.\<close>

definition prepare ::
  "firestore_env \<Rightarrow> string \<Rightarrow> string \<Rightarrow> string set \<Rightarrow> item
     \<Rightarrow> (write_op list \<times> nat) \<times> writer \<Rightarrow> (write_op list \<times> nat) \<times> writer" where
  "prepare env collectionName mode existingIds it acc =
     (case acc of
        ((batch, batchCount), w) \<Rightarrow>
          if mode = ''update'' \<and> truthy (docId it) \<and> has existingIds (docId it)
          then ((batch, batchCount), w\<lparr>skippedCount := skippedCount w + 1\<rparr>)
          else (case doc collectionName (docId it) of
                  None \<Rightarrow> ((batch, batchCount), w\<lparr>errorCount := errorCount w + 1\<rparr>)
                | Some docRef \<Rightarrow>
                    if setRejects env (docData it)
                    then ((batch, batchCount), w\<lparr>errorCount := errorCount w + 1\<rparr>)
                    else ((batch @ [SetOp docRef (docData it) (mode = ''force'')],
                           batchCount + 1), w)))"

definition commitBatch ::
  "firestore_env \<Rightarrow> nat \<Rightarrow> (write_op list \<times> nat) \<times> writer \<Rightarrow> writer" where
  "commitBatch env i acc =
     (case acc of
        ((batch, batchCount), w) \<Rightarrow>
          if batchCount > 0
          then (if commitFails env (i div batchSize)
                then w\<lparr>errorCount := errorCount w + batchCount,
                       commits := commits w @ [(batch, False)]\<rparr>
                else w\<lparr>successCount := successCount w + batchCount,
                       store := fold applyOp batch (store w),
                       commits := commits w @ [(batch, True)]\<rparr>)
          else w)"

function batchLoop ::
  "firestore_env \<Rightarrow> string \<Rightarrow> string \<Rightarrow> string set \<Rightarrow> item list \<Rightarrow> nat \<Rightarrow> writer \<Rightarrow> writer" where
  "batchLoop env collectionName mode existingIds data i w =
     (if i < length data
      then let chunk = take batchSize (drop i data)
           in batchLoop env collectionName mode existingIds data (i + batchSize)
                (commitBatch env i
                   (fold (prepare env collectionName mode existingIds) chunk (([], 0), w)))
      else w)"
  by pat_completeness auto
termination
  by (relation "measure (\<lambda>(env, collectionName, mode, existingIds, data, i, w). length data - i)")
     (auto simp: batchSize_def)

declare batchLoop.simps [simp del]

definition batchWriteToFirestore ::
  "firestore_env \<Rightarrow> firestore \<Rightarrow> string \<Rightarrow> item list \<Rightarrow> string \<Rightarrow> writer" where
  "batchWriteToFirestore env db collectionName data mode =
     (if data = []
      then \<lparr>successCount = 0, errorCount = 0, skippedCount = 0, store = db, commits = []\<rparr>
      else let existingIds =
                 (if mode = ''update'' then getExistingDocIds env db collectionName else {})
           in batchLoop env collectionName mode existingIds data 0
                \<lparr>successCount = 0, errorCount = 0, skippedCount = 0, store = db,
                 commits = []\<rparr>)"

subsection \<open>Notions used to state what the writer does\<close>

text \<open>The chunks \<^verbatim>\<open>data.slice(i, i + batchSize)\<close> for \<open>i = 0, 500, 1000, ...\<close>, numbered
  from 0, and their number.\<close>

definition chunkAt :: "item list \<Rightarrow> nat \<Rightarrow> item list" where
  "chunkAt data j = take batchSize (drop (j * batchSize) data)"

definition nChunks :: "item list \<Rightarrow> nat" where
  "nChunks data = (length data + batchSize - 1) div batchSize"

text \<open>A record is skipped, is queued as an operation of its chunk's batch, or is rejected
  when its document reference is made.\<close>

definition isSkipped :: "string \<Rightarrow> string set \<Rightarrow> item \<Rightarrow> bool" where
  "isSkipped mode existingIds it \<longleftrightarrow>
     mode = ''update'' \<and> truthy (docId it) \<and> has existingIds (docId it)"

definition isRejected ::
  "firestore_env \<Rightarrow> string \<Rightarrow> string \<Rightarrow> string set \<Rightarrow> item \<Rightarrow> bool" where
  "isRejected env collectionName mode existingIds it \<longleftrightarrow>
     \<not> isSkipped mode existingIds it
     \<and> (doc collectionName (docId it) = None \<or> setRejects env (docData it))"

definition queuedOp ::
  "firestore_env \<Rightarrow> string \<Rightarrow> string \<Rightarrow> string set \<Rightarrow> item \<Rightarrow> write_op option" where
  "queuedOp env collectionName mode existingIds it =
     (if isSkipped mode existingIds it \<or> setRejects env (docData it) then None
      else map_option (\<lambda>docRef. SetOp docRef (docData it) (mode = ''force''))
             (doc collectionName (docId it)))"

definition queued ::
  "firestore_env \<Rightarrow> string \<Rightarrow> string \<Rightarrow> string set \<Rightarrow> item list \<Rightarrow> write_op list" where
  "queued env collectionName mode existingIds chunk =
     List.map_filter (queuedOp env collectionName mode existingIds) chunk"

text \<open>One round of the loop, on chunk number \<open>j\<close>.\<close>

definition chunkStep ::
  "firestore_env \<Rightarrow> string \<Rightarrow> string \<Rightarrow> string set \<Rightarrow> item list \<Rightarrow> nat \<Rightarrow> writer \<Rightarrow> writer" where
  "chunkStep env collectionName mode existingIds data j w =
     commitBatch env (j * batchSize)
       (fold (prepare env collectionName mode existingIds) (chunkAt data j) (([], 0), w))"

text \<open>The ids the writer takes as existing: scanned in update mode only.\<close>

definition existingFor :: "firestore_env \<Rightarrow> firestore \<Rightarrow> string \<Rightarrow> string \<Rightarrow> string set" where
  "existingFor env db collectionName mode =
     (if mode = ''update'' then getExistingDocIds env db collectionName else {})"

text \<open>The batches of a call, by chunk number: the operations queued for the chunk.\<close>

definition batchOf ::
  "firestore_env \<Rightarrow> firestore \<Rightarrow> string \<Rightarrow> item list \<Rightarrow> string \<Rightarrow> nat \<Rightarrow> write_op list" where
  "batchOf env db collectionName data mode j =
     queued env collectionName mode (existingFor env db collectionName mode) (chunkAt data j)"

text \<open>One \<^verbatim>\<open>set\<close> operation, with the given merge flag, for each record of the chunk
  whose id makes a document reference and whose data \<^verbatim>\<open>set\<close> accepts, in the order of
  the records.\<close>

definition setOps :: "firestore_env \<Rightarrow> string \<Rightarrow> bool \<Rightarrow> item list \<Rightarrow> write_op list" where
  "setOps env collectionName merge chunk =
     List.map_filter
       (\<lambda>it. if setRejects env (docData it) then None
             else map_option (\<lambda>docRef. SetOp docRef (docData it) merge)
                    (doc collectionName (docId it)))
       chunk"

text \<open>A record the client library accepts: \<^verbatim>\<open>doc\<close> makes a document reference of its
  id, and \<^verbatim>\<open>set\<close> takes its data.\<close>

definition accepted :: "firestore_env \<Rightarrow> string \<Rightarrow> item \<Rightarrow> bool" where
  "accepted env collectionName it \<longleftrightarrow>
     doc collectionName (docId it) \<noteq> None \<and> \<not> setRejects env (docData it)"

text \<open>A name of one segment: not empty, no slash.\<close>

definition plain :: "string \<Rightarrow> bool" where
  "plain s \<longleftrightarrow> s \<noteq> [] \<and> CHR ''/'' \<notin> set s"

text \<open>The document a \<^verbatim>\<open>set\<close> operation addresses.\<close>

definition target :: "write_op \<Rightarrow> string \<times> string" where
  "target w = (case w of SetOp docRef fs merge \<Rightarrow> docRef)"

section \<open>Migration: reading the files (\<^verbatim>\<open>migrate-to-firestore-v2.js\<close>)\<close>

text \<open>\<^verbatim>\<open>item._id || item.id\<close>.\<close>

definition docIdOf :: "json \<Rightarrow> error + json option" where
  "docIdOf entry =
     (case getProp entry ''_id'' of
        Inl e \<Rightarrow> Inl e
      | Inr v \<Rightarrow> if truthy_opt v then Inr v else getProp entry ''id'')"

text \<open>\<^verbatim>\<open>const { _id, id, ...cleanData } = item\<close>.\<close>

definition cleanData :: "json \<Rightarrow> fields" where
  "cleanData entry = filter (\<lambda>(k, v). k \<noteq> ''_id'' \<and> k \<noteq> ''id'') (objFields entry)"

text \<open>\<^verbatim>\<open>{ ...fs, createdAt: serverTimestamp(), updatedAt: serverTimestamp() }\<close>.\<close>

definition withTimestamps :: "fields \<Rightarrow> fields" where
  "withTimestamps fs =
     AList.update ''updatedAt'' ServerTimestamp (AList.update ''createdAt'' ServerTimestamp fs)"

text \<open>
  The body of \<^verbatim>\<open>items.forEach\<close> in \<^verbatim>\<open>migrateCategories\<close> and in
  \<^verbatim>\<open>migratePromptDetails\<close> (the two are the same): \<open>Inl\<close> when it throws, \<open>Inr None\<close>
  when the record is skipped with a warning, \<open>Inr (Some r)\<close> when \<open>r\<close> is pushed.
\<close>

definition plainEntry :: "json \<Rightarrow> error + item option" where
  "plainEntry entry =
     (case docIdOf entry of
        Inl e \<Rightarrow> Inl e
      | Inr None \<Rightarrow> Inr None
      | Inr (Some d) \<Rightarrow>
          if \<not> truthy d then Inr None
          else Inr (Some \<lparr>docId = d, docData = withTimestamps (cleanData entry)\<rparr>))"

text \<open>The same in \<^verbatim>\<open>migratePrompts\<close>, where \<^verbatim>\<open>...(categoryId && { categoryId })\<close> is
  spread after the record's own fields.\<close>

definition promptEntry :: "json option \<Rightarrow> json \<Rightarrow> error + item option" where
  "promptEntry categoryId entry =
     (case docIdOf entry of
        Inl e \<Rightarrow> Inl e
      | Inr None \<Rightarrow> Inr None
      | Inr (Some d) \<Rightarrow>
          if \<not> truthy d then Inr None
          else Inr (Some \<lparr>docId = d,
                         docData = withTimestamps
                           (case categoryId of
                              None \<Rightarrow> cleanData entry
                            | Some cid \<Rightarrow>
                                if truthy cid
                                then AList.update ''categoryId'' cid (cleanData entry)
                                else cleanData entry)\<rparr>))"

text \<open>\<^verbatim>\<open>items.forEach(...)\<close> pushing to the list of all records; a throw ends the
  migration.\<close>

fun forEachPush :: "(json \<Rightarrow> error + item option) \<Rightarrow> json list \<Rightarrow> item list \<Rightarrow> error + item list" where
  "forEachPush f [] acc = Inr acc"
| "forEachPush f (entry # entries) acc =
     (case f entry of
        Inl e \<Rightarrow> Inl e
      | Inr None \<Rightarrow> forEachPush f entries acc
      | Inr (Some r) \<Rightarrow> forEachPush f entries (acc @ [r]))"

text \<open>The loop \<^verbatim>\<open>for (const fileName of files)\<close> of the three migrations: fetch, extract the
  array, run the \<^verbatim>\<open>forEach\<close> whose body \<open>f fileName\<close> is.\<close>

fun readAll ::
  "bucket \<Rightarrow> (string \<Rightarrow> json \<Rightarrow> error + item option) \<Rightarrow> string list \<Rightarrow> item list
     \<Rightarrow> error + item list" where
  "readAll storage f [] acc = Inr acc"
| "readAll storage f (fileName # fileNames) acc =
     (case fetchJSONFromStorage storage fileName of
        Inl e \<Rightarrow> Inl e
      | Inr rawData \<Rightarrow>
          (case extractArrayFromJSON rawData fileName of
             Inl e \<Rightarrow> Inl e
           | Inr entries \<Rightarrow>
               (case forEachPush (f fileName) entries acc of
                  Inl e \<Rightarrow> Inl e
                | Inr acc' \<Rightarrow> readAll storage f fileNames acc')))"

subsection \<open>Category linking\<close>

text \<open>
  The regular expressions of the scripts have the flag \<^verbatim>\<open>i\<close>, not the flag \<^verbatim>\<open>u\<close>, and the
  characters of their patterns are ASCII. A letter of the pattern then matches itself and
  its other case and nothing else: the matcher compares the upper-case forms, and leaves a
  character outside ASCII as it is when its upper-case form is in ASCII.
\<close>

definition canonicalize :: "char \<Rightarrow> char" where
  "canonicalize ch =
     (case map_of (zip ''abcdefghijklmnopqrstuvwxyz'' ''ABCDEFGHIJKLMNOPQRSTUVWXYZ'') ch of
        Some u \<Rightarrow> u
      | None \<Rightarrow> ch)"

text \<open>The line terminators, which \<^verbatim>\<open>.\<close> does not match: LF, CR, U+2028 and U+2029, the
  last two as the three bytes of their encoding.\<close>

definition lineTerminators :: "string list" where
  "lineTerminators = [[CHR 0x0A], [CHR 0x0D], [CHR 0xE2, CHR 0x80, CHR 0xA8],
                      [CHR 0xE2, CHR 0x80, CHR 0xA9]]"

fun hasLineTerminator :: "string \<Rightarrow> bool" where
  "hasLineTerminator [] = False"
| "hasLineTerminator (ch # s) =
     (list_ex (\<lambda>t. take (length t) (ch # s) = t) lineTerminators \<or> hasLineTerminator s)"

text \<open>
  A match of \<^verbatim>\<open>/<prefix>(.+)\.json$/i\<close> that starts at the beginning of \<open>s\<close>: the prefix,
  compared without case; then the group, which is everything up to the final \<^verbatim>\<open>.json\<close>,
  is not empty and has no line terminator. The result is the group.
\<close>

definition matchHere :: "string \<Rightarrow> string \<Rightarrow> string option" where
  "matchHere prefix s =
     (let rest = drop (length prefix) s; n = length rest
      in if map canonicalize (take (length prefix) s) = map canonicalize prefix
            \<and> 6 \<le> n
            \<and> map canonicalize (drop (n - 5) rest) = map canonicalize ''.json''
            \<and> \<not> hasLineTerminator (take (n - 5) rest)
         then Some (take (n - 5) rest)
         else None)"

text \<open>The leftmost match: the pattern is not anchored at the start.\<close>

fun leftmost :: "(string \<Rightarrow> string option) \<Rightarrow> string \<Rightarrow> string option" where
  "leftmost m [] = m []"
| "leftmost m (ch # s) = (case m (ch # s) of Some g \<Rightarrow> Some g | None \<Rightarrow> leftmost m s)"

text \<open>\<^verbatim>\<open>fileName.match(/prompts_(.+)\.json$/i)?.[1]\<close> of the v2 script.\<close>

definition promptsCategoryName :: "string \<Rightarrow> string option" where
  "promptsCategoryName fileName = leftmost (matchHere ''prompts_'') fileName"

text \<open>\<^verbatim>\<open>extractCategoryName\<close> of the older script:
  \<^verbatim>\<open>/(?:prompts_|promptDetails_)(.+)\.json$/i\<close>.\<close>

definition extractCategoryName :: "string \<Rightarrow> string option" where
  "extractCategoryName fileName =
     leftmost (\<lambda>s. case matchHere ''prompts_'' s of
                      Some g \<Rightarrow> Some g
                    | None \<Rightarrow> matchHere ''promptDetails_'' s) fileName"

text \<open>
  \<^verbatim>\<open>categoryMapping[key]\<close> on the object that \<^verbatim>\<open>buildCategoryMapping\<close> returns, a plain
  object: its own property of that name, and for a name it does not have, the member of
  that name that every object inherits from \<^verbatim>\<open>Object.prototype\<close>. \<open>obj\<close> is the object by
  its own properties.
\<close>

definition objectPrototypeKeys :: "string list" where
  "objectPrototypeKeys =
     [''constructor'', ''__defineGetter__'', ''__defineSetter__'', ''hasOwnProperty'',
      ''__lookupGetter__'', ''__lookupSetter__'', ''isPrototypeOf'', ''propertyIsEnumerable'',
      ''toString'', ''valueOf'', ''__proto__'', ''toLocaleString'']"

definition readProperty :: "(string \<Rightarrow> json option) \<Rightarrow> string \<Rightarrow> json option" where
  "readProperty obj key =
     (case obj key of
        Some v \<Rightarrow> Some v
      | None \<Rightarrow> if key \<in> set objectPrototypeKeys then Some (Inherited key) else None)"

text \<open>
  The category id for a file: \<^verbatim>\<open>null\<close> unless the name matches and a mapping was built,
  and then \<^verbatim>\<open>categoryMapping[categoryName] || categoryMapping[categoryName.toLowerCase()]\<close>.
  \<open>toLowerCase\<close> is \<^verbatim>\<open>String.prototype.toLowerCase\<close> of the runtime, which follows the
  case mappings of Unicode; the model takes it as a parameter and assumes nothing of it.
\<close>

definition linkCategory ::
  "(string \<Rightarrow> string) \<Rightarrow> (string \<Rightarrow> json option) option \<Rightarrow> string \<Rightarrow> json option" where
  "linkCategory toLowerCase categoryMapping fileName =
     (case promptsCategoryName fileName of
        None \<Rightarrow> None
      | Some categoryName \<Rightarrow>
          (case categoryMapping of
             None \<Rightarrow> None
           | Some m \<Rightarrow>
               if truthy_opt (readProperty m categoryName) then readProperty m categoryName
               else readProperty m (toLowerCase categoryName)))"

text \<open>What \<^verbatim>\<open>toLowerCase\<close> does to a string of ASCII characters, for the runs below that
  need a runtime.\<close>

definition lowerASCII :: "string \<Rightarrow> string" where
  "lowerASCII s =
     map (\<lambda>ch. case map_of (zip ''ABCDEFGHIJKLMNOPQRSTUVWXYZ'' ''abcdefghijklmnopqrstuvwxyz'') ch of
                  Some l \<Rightarrow> l
                | None \<Rightarrow> ch) s"

subsection \<open>The three migrations\<close>

definition noWrites :: "firestore \<Rightarrow> writer" where
  "noWrites db =
     \<lparr>successCount = 0, errorCount = 0, skippedCount = 0, store = db, commits = []\<rparr>"

definition migrateCategories ::
  "firestore_env \<Rightarrow> bucket \<Rightarrow> firestore \<Rightarrow> string list \<Rightarrow> string \<Rightarrow> error + writer" where
  "migrateCategories env storage db categoryFiles mode =
     (if categoryFiles = [] then Inr (noWrites db)
      else (case readAll storage (\<lambda>fileName. plainEntry) categoryFiles [] of
              Inl e \<Rightarrow> Inl e
            | Inr allCategoriesData \<Rightarrow>
                Inr (batchWriteToFirestore env db ''categories'' allCategoriesData mode)))"

definition migratePrompts ::
  "firestore_env \<Rightarrow> (string \<Rightarrow> string) \<Rightarrow> bucket \<Rightarrow> firestore \<Rightarrow> string list
     \<Rightarrow> (string \<Rightarrow> json option) option \<Rightarrow> string \<Rightarrow> error + writer" where
  "migratePrompts env toLowerCase storage db promptFiles categoryMapping mode =
     (if promptFiles = [] then Inr (noWrites db)
      else (case readAll storage
                   (\<lambda>fileName. promptEntry (linkCategory toLowerCase categoryMapping fileName))
                   promptFiles [] of
              Inl e \<Rightarrow> Inl e
            | Inr allPromptsData \<Rightarrow>
                Inr (batchWriteToFirestore env db ''prompts'' allPromptsData mode)))"

definition migratePromptDetails ::
  "firestore_env \<Rightarrow> bucket \<Rightarrow> firestore \<Rightarrow> string list \<Rightarrow> string \<Rightarrow> error + writer" where
  "migratePromptDetails env storage db promptDetailFiles mode =
     (if promptDetailFiles = [] then Inr (noWrites db)
      else (case readAll storage (\<lambda>fileName. plainEntry) promptDetailFiles [] of
              Inl e \<Rightarrow> Inl e
            | Inr allDetailsData \<Rightarrow>
                Inr (batchWriteToFirestore env db ''promptDetails'' allDetailsData mode)))"

subsection \<open>Notions used to state what the migrations do\<close>

text \<open>The records of the files, in order, when every file can be read.\<close>

definition fileEntries :: "bucket \<Rightarrow> string \<Rightarrow> json list" where
  "fileEntries storage fileName =
     (case fetchJSONFromStorage storage fileName of
        Inl e \<Rightarrow> []
      | Inr rawData \<Rightarrow>
          (case extractArrayFromJSON rawData fileName of Inl e \<Rightarrow> [] | Inr entries \<Rightarrow> entries))"

definition inputRecords :: "bucket \<Rightarrow> string list \<Rightarrow> json list" where
  "inputRecords storage fileNames = concat (map (fileEntries storage) fileNames)"

text \<open>A record has a document id: \<^verbatim>\<open>_id\<close> or \<^verbatim>\<open>id\<close> is truthy.\<close>

definition hasDocId :: "json \<Rightarrow> bool" where
  "hasDocId entry \<longleftrightarrow>
     truthy_opt (map_of (objFields entry) ''_id'') \<or> truthy_opt (map_of (objFields entry) ''id'')"

text \<open>The fields of a queued operation.\<close>

definition opData :: "write_op \<Rightarrow> fields" where
  "opData w = (case w of SetOp docRef fs merge \<Rightarrow> fs)"

text \<open>The records a \<^verbatim>\<open>forEach\<close> body pushes for a list of entries.\<close>

definition pushed :: "(json \<Rightarrow> error + item option) \<Rightarrow> json list \<Rightarrow> item list" where
  "pushed f entries =
     List.map_filter (\<lambda>entry. case f entry of Inl e \<Rightarrow> None | Inr r \<Rightarrow> r) entries"

section \<open>Properties of the storage reader\<close>

lemma firstArray_None: "firstArray kvs keys = None \<longleftrightarrow> (\<forall>k \<in> set keys. arrayAt kvs k = None)"
  by (induction keys) (auto split: option.splits)

lemma firstArray_first:
  assumes "i < length keys" and "arrayAt kvs (keys ! i) = Some xs"
    and "\<And>j. j < i \<Longrightarrow> arrayAt kvs (keys ! j) = None"
  shows "firstArray kvs keys = Some xs"
  using assms
proof (induction keys arbitrary: i)
  case Nil
  then show ?case by simp
next
  case (Cons key keys)
  show ?case
  proof (cases i)
    case 0
    with Cons.prems(2) show ?thesis by simp
  next
    case (Suc m)
    have head: "arrayAt kvs key = None"
      using Cons.prems(3) [of 0] Suc by simp
    have "firstArray kvs keys = Some xs"
    proof (rule Cons.IH [of m])
      show "m < length keys" using Cons.prems(1) Suc by simp
      show "arrayAt kvs (keys ! m) = Some xs" using Cons.prems(2) Suc by simp
      show "arrayAt kvs (keys ! j) = None" if "j < m" for j
        using Cons.prems(3) [of "Suc j"] that Suc by simp
    qed
    with head show ?thesis by simp
  qed
qed

lemma arrayAt_own: "arrayAt kvs k = Some xs \<Longrightarrow> k \<in> set (map fst kvs)"
  by (auto simp: arrayAt_def map_of_eq_None_iff split: option.splits json.splits
      dest!: map_of_SomeD) force

lemma no_array_iff:
  "(\<forall>k \<in> set (map fst kvs). arrayAt kvs k = None) \<longleftrightarrow> (\<forall>k. arrayAt kvs k = None)"
  using arrayAt_own by (metis option.exhaust)

lemma extractArrayWith_error:
  "isl (extractArrayWith pkeys data fileName) \<longleftrightarrow>
     (case data of JArr xs \<Rightarrow> False | JObj kvs \<Rightarrow> (\<forall>k. arrayAt kvs k = None) | _ \<Rightarrow> True)"
proof (cases data)
  case (JObj kvs)
  have "firstArray kvs pkeys = None" if "\<forall>k. arrayAt kvs k = None"
    using that by (simp add: firstArray_None)
  moreover have "firstArray kvs (map fst kvs) = None \<longleftrightarrow> (\<forall>k. arrayAt kvs k = None)"
    using firstArray_None [of kvs "map fst kvs"] no_array_iff [of kvs] by simp
  ultimately show ?thesis
    using JObj by (auto simp: extractArrayWith_def split: option.splits)
qed (simp_all add: extractArrayWith_def)

lemma extractArrayWith_array: "extractArrayWith pkeys (JArr xs) fileName = Inr xs"
  by (simp add: extractArrayWith_def)

lemma extractArrayWith_priority:
  assumes "i < length pkeys" and "arrayAt kvs (pkeys ! i) = Some ys"
    and "\<forall>j<i. arrayAt kvs (pkeys ! j) = None"
  shows "extractArrayWith pkeys (JObj kvs) fileName = Inr ys"
proof -
  have "firstArray kvs pkeys = Some ys"
    using assms by (intro firstArray_first [of i]) auto
  then show ?thesis
    by (simp add: extractArrayWith_def)
qed

lemma extractArrayWith_fallback:
  assumes none: "\<forall>k \<in> set pkeys. arrayAt kvs k = None"
    and i: "i < length kvs" "arrayAt kvs (fst (kvs ! i)) = Some ys"
    and first: "\<forall>j<i. arrayAt kvs (fst (kvs ! j)) = None"
  shows "extractArrayWith pkeys (JObj kvs) fileName = Inr ys"
proof -
  have "firstArray kvs pkeys = None"
    using none by (simp add: firstArray_None)
  moreover have "firstArray kvs (map fst kvs) = Some ys"
  proof (rule firstArray_first [of i])
    show "i < length (map fst kvs)" using i by simp
    show "arrayAt kvs (map fst kvs ! i) = Some ys" using i by simp
    show "arrayAt kvs (map fst kvs ! j) = None" if "j < i" for j
      using first that i by simp
  qed
  ultimately show ?thesis
    by (simp add: extractArrayWith_def)
qed

text \<open>
  Claim C7. The extraction step returns an array unchanged. For an object it returns the
  array under the first key of the priority list that holds an array, and otherwise the value
  of the first property (in key order) whose value is an array. It signals an error exactly
  when the value is an object none of whose properties is an array, or is neither an array
  nor an object.
\<close>

theorem extractArrayFromJSON_shapes:
  "extractArrayFromJSON (JArr xs) fileName = Inr xs
   \<and> (\<forall>i ys. i < length possibleKeys \<and> arrayAt kvs (possibleKeys ! i) = Some ys
          \<and> (\<forall>j<i. arrayAt kvs (possibleKeys ! j) = None)
        \<longrightarrow> extractArrayFromJSON (JObj kvs) fileName = Inr ys)
   \<and> (\<forall>i ys. (\<forall>k \<in> set possibleKeys. arrayAt kvs k = None)
          \<and> i < length kvs \<and> arrayAt kvs (fst (kvs ! i)) = Some ys
          \<and> (\<forall>j<i. arrayAt kvs (fst (kvs ! j)) = None)
        \<longrightarrow> extractArrayFromJSON (JObj kvs) fileName = Inr ys)
   \<and> (isl (extractArrayFromJSON data fileName) \<longleftrightarrow>
        (case data of
           JArr zs \<Rightarrow> False
         | JObj props \<Rightarrow> (\<forall>k. arrayAt props k = None)
         | _ \<Rightarrow> True))"
  unfolding extractArrayFromJSON_def
proof (intro conjI allI impI)
  show "extractArrayWith possibleKeys (JArr xs) fileName = Inr xs"
    by (rule extractArrayWith_array)
next
  fix i ys
  assume "i < length possibleKeys \<and> arrayAt kvs (possibleKeys ! i) = Some ys
          \<and> (\<forall>j<i. arrayAt kvs (possibleKeys ! j) = None)"
  then show "extractArrayWith possibleKeys (JObj kvs) fileName = Inr ys"
    using extractArrayWith_priority [of i possibleKeys kvs ys fileName] by simp
next
  fix i ys
  assume "(\<forall>k \<in> set possibleKeys. arrayAt kvs k = None)
          \<and> i < length kvs \<and> arrayAt kvs (fst (kvs ! i)) = Some ys
          \<and> (\<forall>j<i. arrayAt kvs (fst (kvs ! j)) = None)"
  then show "extractArrayWith possibleKeys (JObj kvs) fileName = Inr ys"
    using extractArrayWith_fallback [of possibleKeys kvs i ys fileName] by simp
next
  show "isl (extractArrayWith possibleKeys data fileName) \<longleftrightarrow>
        (case data of
           JArr zs \<Rightarrow> False
         | JObj props \<Rightarrow> (\<forall>k. arrayAt props k = None)
         | _ \<Rightarrow> True)"
    by (rule extractArrayWith_error)
qed

theorem extractArrayFromJSON_shapes_witness:
  "extractArrayFromJSON
     (JObj [(''meta'', JNum 1), (''zzz'', JArr [JNum 9]), (''items'', JArr [JNum 2]),
            (''data'', JStr ''x'')]) ''a.json'' = Inr [JNum 2]
   \<and> extractArrayFromJSON
     (JObj [(''count'', JNum 1), (''rows'', JArr [JNum 7]), (''more'', JArr [])]) ''b.json''
       = Inr [JNum 7]
   \<and> isl (extractArrayFromJSON (JObj [(''count'', JNum 1)]) ''c.json'')
   \<and> isl (extractArrayFromJSON (JStr ''text'') ''d.json'')
   \<and> \<not> isl (extractArrayFromJSON (JArr []) ''e.json'')"
proof -
  let ?a = "[(''meta'', JNum 1), (''zzz'', JArr [JNum 9]), (''items'', JArr [JNum 2]),
             (''data'', JStr ''x'')]"
  let ?b = "[(''count'', JNum 1), (''rows'', JArr [JNum 7]), (''more'', JArr [])]"
  have ha: "1 < length possibleKeys \<and> arrayAt ?a (possibleKeys ! 1) = Some [JNum 2]
            \<and> (\<forall>j<1. arrayAt ?a (possibleKeys ! j) = None)"
    by (simp add: possibleKeys_def arrayAt_def)
  have a: "extractArrayFromJSON (JObj ?a) ''a.json'' = Inr [JNum 2]"
    by (rule extractArrayFromJSON_shapes
          [THEN conjunct2, THEN conjunct1, rule_format, of 1 ?a "[JNum 2]", OF ha])
  have hb: "(\<forall>k \<in> set possibleKeys. arrayAt ?b k = None)
            \<and> 1 < length ?b \<and> arrayAt ?b (fst (?b ! 1)) = Some [JNum 7]
            \<and> (\<forall>j<1. arrayAt ?b (fst (?b ! j)) = None)"
    by (simp add: possibleKeys_def arrayAt_def)
  have b: "extractArrayFromJSON (JObj ?b) ''b.json'' = Inr [JNum 7]"
    by (rule extractArrayFromJSON_shapes
          [THEN conjunct2, THEN conjunct2, THEN conjunct1, rule_format,
           of ?b 1 "[JNum 7]", OF hb])
  note err = extractArrayFromJSON_shapes [THEN conjunct2, THEN conjunct2, THEN conjunct2]
  have c: "isl (extractArrayFromJSON (JObj [(''count'', JNum 1)]) ''c.json'')"
    by (simp add: err arrayAt_def)
  have d: "isl (extractArrayFromJSON (JStr ''text'') ''d.json'')"
    by (simp add: err)
  have e: "\<not> isl (extractArrayFromJSON (JArr []) ''e.json'')"
    by (simp add: err)
  show ?thesis
    by (intro conjI) (fact a b c d e)+
qed

text \<open>The same holds for the older script's copy of the function, whose list has one more key.\<close>

lemma extractArrayFromJSON_v1_error:
  "isl (extractArrayFromJSON_v1 data fileName) \<longleftrightarrow>
     (case data of JArr zs \<Rightarrow> False | JObj props \<Rightarrow> (\<forall>k. arrayAt props k = None) | _ \<Rightarrow> True)"
  unfolding extractArrayFromJSON_v1_def by (rule extractArrayWith_error)

section \<open>Properties of pagination\<close>

lemma slice_window:
  assumes "0 \<le> start" "0 \<le> n"
  shows "slice xs (Finite start) (Finite (start + n)) = take (nat n) (drop (nat start) xs)"
proof (cases "start \<le> int (length xs)")
  case True
  then show ?thesis using assms
    by (auto simp: slice_def relativeIndex_def Let_def min_def max_def take_eq_Nil
          intro!: take_all [symmetric])
next
  case False
  then show ?thesis using assms
    by (simp add: slice_def relativeIndex_def Let_def min_def max_def)
qed

lemma slice_PosInfinity: "slice xs PosInfinity e = []"
  by (simp add: slice_def relativeIndex_def Let_def)

lemma clamp_limit:
  "\<exists>n. mathMin (Finite 100) (mathMax (Finite 1) (orDefault v 10)) = Finite n
        \<and> 1 \<le> n \<and> n \<le> 100"
  by (cases v) (auto simp: mathMin_def mathMax_def orDefault_def)

lemma clamp_page:
  "mathMax (Finite 1) (orDefault v 1) = PosInfinity
   \<or> (\<exists>n. mathMax (Finite 1) (orDefault v 1) = Finite n \<and> 1 \<le> n)"
  by (cases v) (auto simp: mathMax_def orDefault_def)

lemma paginate_limit_ex:
  "\<exists>n. limit (paginate xs p l) = Finite n \<and> 1 \<le> n \<and> n \<le> 100"
  using clamp_limit [of "parseInt (case l of None \<Rightarrow> ''10'' | Some s \<Rightarrow> s)"]
  by (simp add: paginate_def Let_def)

lemma paginate_limit:
  "limit (paginate xs p l) = Finite (intOf (limit (paginate xs p l)))
   \<and> 1 \<le> intOf (limit (paginate xs p l)) \<and> intOf (limit (paginate xs p l)) \<le> 100"
proof -
  obtain n where "limit (paginate xs p l) = Finite n" "1 \<le> n" "n \<le> 100"
    using paginate_limit_ex by blast
  then show ?thesis
    by (simp add: intOf_def)
qed

lemma paginate_page:
  "page (paginate xs p l) = PosInfinity
   \<or> (page (paginate xs p l) = Finite (intOf (page (paginate xs p l)))
      \<and> 1 \<le> intOf (page (paginate xs p l)))"
  using clamp_page [of "parseInt (case p of None \<Rightarrow> ''1'' | Some s \<Rightarrow> s)"]
  by (auto simp: paginate_def Let_def intOf_def)

lemma paginate_page_le: "numLe (Finite 1) (page (paginate xs p l))"
  using paginate_page [of xs p l]
  by (cases "page (paginate xs p l)") (auto simp: intOf_def)

lemma paginate_total: "total (paginate xs p l) = int (length xs)"
  by (simp add: paginate_def Let_def)

lemma paginate_fields:
  "totalPages (paginate xs p l)
     = mathCeilDiv (Finite (int (length xs))) (limit (paginate xs p l))"
  "pageData (paginate xs p l)
     = slice xs (numMul (numSub (page (paginate xs p l)) (Finite 1)) (limit (paginate xs p l)))
         (numAdd (numMul (numSub (page (paginate xs p l)) (Finite 1))
                    (limit (paginate xs p l))) (limit (paginate xs p l)))"
  by (simp_all add: paginate_def Let_def)

lemma paginate_totalPages:
  "totalPages (paginate xs p l)
     = Finite \<lceil>real (length xs) / real_of_int (intOf (limit (paginate xs p l)))\<rceil>"
proof -
  obtain n where n: "limit (paginate xs p l) = Finite n" "1 \<le> n"
    using paginate_limit_ex by blast
  have "totalPages (paginate xs p l) = mathCeilDiv (Finite (int (length xs))) (Finite n)"
    by (simp only: paginate_fields n(1))
  also have "\<dots> = Finite (- ((- int (length xs)) div n))"
    using n(2) by simp
  also have "- ((- int (length xs)) div n) = \<lceil>real (length xs) / real_of_int n\<rceil>"
    using ceiling_divide_eq_div [where ?'a = real, of "int (length xs)" n] by simp
  finally show ?thesis
    by (simp add: n(1) intOf_def)
qed

lemma paginate_pageData:
  assumes "page (paginate xs p l) = Finite pg"
  shows "pageData (paginate xs p l)
           = take (nat (intOf (limit (paginate xs p l))))
               (drop (nat ((pg - 1) * intOf (limit (paginate xs p l)))) xs)"
proof -
  obtain n where n: "limit (paginate xs p l) = Finite n" "1 \<le> n"
    using paginate_limit_ex by blast
  have pg: "1 \<le> pg"
    using paginate_page [of xs p l] assms by (simp add: intOf_def)
  have "pageData (paginate xs p l)
          = slice xs (numMul (numSub (Finite pg) (Finite 1)) (Finite n))
              (numAdd (numMul (numSub (Finite pg) (Finite 1)) (Finite n)) (Finite n))"
    by (simp only: paginate_fields assms n(1))
  also have "\<dots> = slice xs (Finite ((pg - 1) * n)) (Finite ((pg - 1) * n + n))"
    by (simp add: numSub_def)
  also have "\<dots> = take (nat n) (drop (nat ((pg - 1) * n)) xs)"
    using pg n(2) by (intro slice_window) simp_all
  finally show ?thesis
    by (simp add: n(1) intOf_def)
qed

lemma paginate_pageData_infinite:
  assumes "page (paginate xs p l) = PosInfinity"
  shows "pageData (paginate xs p l) = []"
proof -
  obtain n where n: "limit (paginate xs p l) = Finite n" "1 \<le> n"
    using paginate_limit_ex by blast
  have "pageData (paginate xs p l)
          = slice xs (numMul (numSub PosInfinity (Finite 1)) (Finite n))
              (numAdd (numMul (numSub PosInfinity (Finite 1)) (Finite n)) (Finite n))"
    by (simp only: paginate_fields assms n(1))
  also have "\<dots> = slice xs PosInfinity PosInfinity"
    using n(2) by (simp add: numSub_def infinityOf_def)
  finally show ?thesis
    by (simp add: slice_PosInfinity)
qed

lemma skipWhiteSpace_none: "find (startsWith s) strWhiteSpace = None \<Longrightarrow> skipWhiteSpace s = s"
  by (simp add: skipWhiteSpace.simps)

lemma skipWhiteSpace_some:
  "find (startsWith s) strWhiteSpace = Some w
     \<Longrightarrow> skipWhiteSpace s = skipWhiteSpace (drop (length w) s)"
  by (simp add: skipWhiteSpace.simps)

lemma parseInt_examples:
  "parseInt ''-5'' = Finite (- 5)" "parseInt ''1000'' = Finite 1000" "parseInt ''0'' = Finite 0"
  "parseInt ''abc'' = NaN" "parseInt '''' = NaN" "parseInt ''2'' = Finite 2"
  "parseInt ''10'' = Finite 10" "parseInt ''1'' = Finite 1" "parseInt ''-3'' = Finite (- 3)"
  by (simp_all add: parseInt_def skipWhiteSpace_none strWhiteSpace_def startsWith_def
        stripPrefix_def parseDigits_def decDigits_def toNumber_def)

lemma ceiling_pages:
  assumes "0 < l"
  shows "real_of_int (\<lceil>real n / real_of_int l\<rceil> - 1) * real_of_int l < real n
         \<and> real n \<le> real_of_int \<lceil>real n / real_of_int l\<rceil> * real_of_int l"
proof -
  have pos: "0 < real_of_int l" using assms by simp
  have "real_of_int \<lceil>real n / real_of_int l\<rceil> - 1 < real n / real_of_int l"
    by linarith
  then have lo: "(real_of_int \<lceil>real n / real_of_int l\<rceil> - 1) * real_of_int l < real n"
    using pos by (simp add: pos_less_divide_eq)
  have "real n / real_of_int l \<le> real_of_int \<lceil>real n / real_of_int l\<rceil>"
    by linarith
  then have hi: "real n \<le> real_of_int \<lceil>real n / real_of_int l\<rceil> * real_of_int l"
    using pos by (simp only: pos_divide_le_eq)
  from lo hi show ?thesis by simp
qed

lemma query_sanitized:
  assumes "queryWithPagination q p l = Inr r"
  shows "page r = page (paginate xs p l) \<and> limit r = limit (paginate xs p l)
         \<and> (\<exists>docs. offsetLimitGet q (numMul (numSub (page r) (Finite 1)) (limit r)) (limit r)
                      = Some docs
                \<and> pageData r = map docWithId docs)
         \<and> countGet q = Some (total r)
         \<and> totalPages r = mathCeilDiv (Finite (total r)) (limit r)"
  using assms
  by (auto simp: queryWithPagination_def paginate_def Let_def split: option.splits)

lemma query_fails:
  "queryWithPagination q p l = Inl ()
     \<longleftrightarrow> countGet q = None
         \<or> offsetLimitGet q (numMul (numSub (page (paginate xs p l)) (Finite 1))
                               (limit (paginate xs p l))) (limit (paginate xs p l)) = None"
  by (auto simp: queryWithPagination_def paginate_def Let_def split: option.splits)

lemma limit_examples:
  "limit (paginate xs p (Some ''-5'')) = Finite 1"
  "limit (paginate xs p (Some ''1000'')) = Finite 100"
  "limit (paginate xs p (Some ''0'')) = Finite 10"
  "limit (paginate xs p None) = Finite 10"
  "limit (paginate xs p (Some ''abc'')) = Finite 10"
  "page (paginate xs (Some ''-3'') l) = Finite 1"
  "page (paginate xs (Some ''0'') l) = Finite 1"
  "page (paginate xs None l) = Finite 1"
  "page (paginate xs (Some ''abc'') l) = Finite 1"
  by (simp_all add: paginate_def Let_def parseInt_examples orDefault_def mathMax_def mathMin_def)

text \<open>
  Claim C4. Whatever the \<open>page\<close> and \<open>limit\<close> inputs are (missing, or any string), the
  limit is an integer in \<open>[1, 100]\<close> and the page is at least \<open>1\<close>, in the storage-backed
  \<^verbatim>\<open>paginate\<close> and in the Firestore-backed \<^verbatim>\<open>queryWithPagination\<close>, which computes the
  same two values. This limit is the one used (\<^verbatim>\<open>paginate\<close> returns at most that many
  items, \<^verbatim>\<open>queryWithPagination\<close> runs the query with it and returns what the query gives)
  and the one echoed in the body of the response. \<^verbatim>\<open>queryWithPagination\<close> fails only when
  one of its two reads does. \<open>limit=-5\<close> gives \<open>1\<close>, \<open>limit=1000\<close> gives \<open>100\<close>, and
  \<open>limit=0\<close>, a missing and a non-numeric limit give the default \<open>10\<close>; a page that is
  negative, zero, missing or non-numeric gives \<open>1\<close>. The page is an integer or, for a
  numeral too large for a double, infinite; the body then carries \<^verbatim>\<open>"page":null\<close>.
\<close>

theorem pagination_clamped:
  "numLe (Finite 1) (page (paginate xs p l))
   \<and> limit (paginate xs p l) = Finite (intOf (limit (paginate xs p l)))
   \<and> 1 \<le> intOf (limit (paginate xs p l)) \<and> intOf (limit (paginate xs p l)) \<le> 100
   \<and> length (pageData (paginate xs p l)) \<le> nat (intOf (limit (paginate xs p l)))
   \<and> map_of (objFields (categoryListBody (paginate ys p l))) ''limit''
       = Some (JNum (intOf (limit (paginate ys p l))))
   \<and> map_of (objFields (categoryListBody (paginate ys p l))) ''page''
       = Some (numJSON (page (paginate ys p l)))
   \<and> (\<forall>r. queryWithPagination q p l = Inr r
        \<longrightarrow> numLe (Finite 1) (page r)
            \<and> limit r = Finite (intOf (limit r))
            \<and> 1 \<le> intOf (limit r) \<and> intOf (limit r) \<le> 100
            \<and> page r = page (paginate xs p l) \<and> limit r = limit (paginate xs p l)
            \<and> (\<exists>docs. offsetLimitGet q (numMul (numSub (page r) (Finite 1)) (limit r))
                         (limit r) = Some docs
                   \<and> pageData r = map docWithId docs)
            \<and> map_of (objFields (categoryListBody r)) ''limit''
                = Some (JNum (intOf (limit r)))
            \<and> map_of (objFields (categoryListBody r)) ''page'' = Some (numJSON (page r)))
   \<and> (queryWithPagination q p l = Inl ()
        \<longleftrightarrow> countGet q = None
            \<or> offsetLimitGet q (numMul (numSub (page (paginate xs p l)) (Finite 1))
                                  (limit (paginate xs p l))) (limit (paginate xs p l)) = None)
   \<and> limit (paginate xs p (Some ''-5'')) = Finite 1
   \<and> limit (paginate xs p (Some ''1000'')) = Finite 100
   \<and> limit (paginate xs p (Some ''0'')) = Finite 10
   \<and> limit (paginate xs p None) = Finite 10
   \<and> limit (paginate xs p (Some ''abc'')) = Finite 10
   \<and> page (paginate xs (Some ''-3'') l) = Finite 1
   \<and> page (paginate xs (Some ''0'') l) = Finite 1
   \<and> page (paginate xs None l) = Finite 1
   \<and> page (paginate xs (Some ''abc'') l) = Finite 1"
proof (intro conjI allI impI)
  show "numLe (Finite 1) (page (paginate xs p l))"
    by (rule paginate_page_le)
  show "limit (paginate xs p l) = Finite (intOf (limit (paginate xs p l)))"
    "1 \<le> intOf (limit (paginate xs p l))" "intOf (limit (paginate xs p l)) \<le> 100"
    using paginate_limit [of xs p l] by simp_all
  show "length (pageData (paginate xs p l)) \<le> nat (intOf (limit (paginate xs p l)))"
  proof (cases "page (paginate xs p l) = PosInfinity")
    case True
    then show ?thesis by (simp add: paginate_pageData_infinite)
  next
    case False
    then have "page (paginate xs p l) = Finite (intOf (page (paginate xs p l)))"
      using paginate_page [of xs p l] by simp
    then show ?thesis
      by (simp add: paginate_pageData [of xs p l "intOf (page (paginate xs p l))"])
  qed
  show "map_of (objFields (categoryListBody (paginate ys p l))) ''limit''
          = Some (JNum (intOf (limit (paginate ys p l))))"
    using paginate_limit [of ys p l]
    by (simp add: categoryListBody_def objFields_def numJSON_def intOf_def
          split: number.splits)
  show "map_of (objFields (categoryListBody (paginate ys p l))) ''page''
          = Some (numJSON (page (paginate ys p l)))"
    by (simp add: categoryListBody_def objFields_def)
  show "queryWithPagination q p l = Inl ()
        \<longleftrightarrow> countGet q = None
            \<or> offsetLimitGet q (numMul (numSub (page (paginate xs p l)) (Finite 1))
                                  (limit (paginate xs p l))) (limit (paginate xs p l)) = None"
    by (rule query_fails)
  show "limit (paginate xs p (Some ''-5'')) = Finite 1"
    "limit (paginate xs p (Some ''1000'')) = Finite 100"
    "limit (paginate xs p (Some ''0'')) = Finite 10"
    "limit (paginate xs p None) = Finite 10"
    "limit (paginate xs p (Some ''abc'')) = Finite 10"
    "page (paginate xs (Some ''-3'') l) = Finite 1"
    "page (paginate xs (Some ''0'') l) = Finite 1"
    "page (paginate xs None l) = Finite 1"
    "page (paginate xs (Some ''abc'') l) = Finite 1"
    by (rule limit_examples)+
next
  fix r
  assume r: "queryWithPagination q p l = Inr r"
  note s = query_sanitized [OF r, of xs]
  show same: "page r = page (paginate xs p l)" "limit r = limit (paginate xs p l)"
    using s by simp_all
  show "numLe (Finite 1) (page r)"
    by (simp only: same paginate_page_le)
  show lim: "limit r = Finite (intOf (limit r))"
    "1 \<le> intOf (limit r)" "intOf (limit r) \<le> 100"
    using paginate_limit [of xs p l] by (simp_all only: same(2))
  show "\<exists>docs. offsetLimitGet q (numMul (numSub (page r) (Finite 1)) (limit r)) (limit r)
                 = Some docs
              \<and> pageData r = map docWithId docs"
    by (rule s [THEN conjunct2, THEN conjunct2, THEN conjunct1])
  show "map_of (objFields (categoryListBody r)) ''limit'' = Some (JNum (intOf (limit r)))"
    using lim(1)
    by (simp add: categoryListBody_def objFields_def numJSON_def intOf_def
          split: number.splits)
  show "map_of (objFields (categoryListBody r)) ''page'' = Some (numJSON (page r))"
    by (simp add: categoryListBody_def objFields_def)
qed

lemma digitsValue_zeros:
  "digitsValue decDigits 10 acc (replicate n (CHR ''0'')) = acc * 10 ^ n"
  by (induction n arbitrary: acc) (simp_all add: decDigits_def)

lemma bitLength_double: "0 < n \<Longrightarrow> bitLength (2 * n) = Suc (bitLength n)"
  by (subst bitLength.simps) simp

lemma bitLength_bounds: "0 < n \<Longrightarrow> 2 ^ (bitLength n - 1) \<le> n \<and> n < 2 ^ bitLength n"
proof (induction n rule: bitLength.induct)
  case (1 n)
  show ?case
  proof (cases "n div 2 = 0")
    case True
    with "1.prems" have "n = 1" by (simp add: div_eq_0_iff) 
    then show ?thesis
      by (simp add: bitLength.simps [of "Suc 0"] bitLength.simps [of 0])
  next
    case False
    then have pos: "0 < n div 2" by simp
    from "1.IH" [OF _ pos] "1.prems"
    have IH: "2 ^ (bitLength (n div 2) - 1) \<le> n div 2" "n div 2 < 2 ^ bitLength (n div 2)"
      by simp_all
    have bl: "bitLength n = Suc (bitLength (n div 2))"
      using "1.prems" by (subst bitLength.simps) simp
    have "0 < bitLength (n div 2)"
      using pos by (subst bitLength.simps) simp
    then have "(2::nat) ^ bitLength (n div 2) = 2 * 2 ^ (bitLength (n div 2) - 1)"
      by (cases "bitLength (n div 2)") simp_all
    with IH show ?thesis
      by (simp add: bl) linarith
  qed
qed

lemma toNumber_overflow:
  assumes "2 ^ 1024 \<le> n"
  shows "toNumber n = PosInfinity"
proof -
  let ?a = "nat \<bar>n\<bar>"
  let ?e = "bitLength ?a - 53"
  let ?q = "?a div 2 ^ ?e"
  have n: "0 < n" "(2::nat) ^ 1024 \<le> ?a"
    using assms by (simp_all add: le_nat_iff)
  then have pos: "0 < ?a" by simp
  have "(2::nat) ^ 53 \<le> 2 ^ 1024"
    by (intro power_increasing) simp_all
  with n(2) have big: "\<not> ?a < 2 ^ 53"
    by linarith
  from bitLength_bounds [OF pos]
  have lo: "2 ^ (bitLength ?a - 1) \<le> ?a" and hi: "?a < 2 ^ bitLength ?a"
    by simp_all
  have len: "1024 < bitLength ?a"
  proof (rule ccontr)
    assume "\<not> 1024 < bitLength ?a"
    then have "bitLength ?a \<le> 1024" by simp
    then have "(2::nat) ^ bitLength ?a \<le> 2 ^ 1024"
      by (intro power_increasing) simp_all
    with hi n(2) show False by linarith
  qed
  have split: "bitLength ?a - 1 = 52 + ?e"
    using len by simp
  have "2 ^ 52 * 2 ^ ?e \<le> ?a"
    using lo by (simp only: split power_add)
  then have "2 ^ 52 \<le> ?q"
    by (simp add: less_eq_div_iff_mult_less_eq)
  then have "2 ^ 52 * 2 ^ ?e \<le> ?q * 2 ^ ?e"
    by simp
  moreover have "(2::nat) ^ 1024 \<le> 2 ^ 52 * 2 ^ ?e"
  proof -
    have "(2::nat) ^ 1024 \<le> 2 ^ (52 + ?e)"
      using len by (intro power_increasing) simp_all
    then show ?thesis by (simp only: power_add)
  qed
  ultimately have q: "(2::nat) ^ 1024 \<le> ?q * 2 ^ ?e"
    by (rule order_trans [rotated])
  then have q1: "(2::nat) ^ 1024 \<le> (?q + 1) * 2 ^ ?e"
    by (simp add: add_mult_distrib)
  show ?thesis
    unfolding toNumber_def Let_def
    using big n(1) q q1 by (simp only: if_False if_True split: if_splits) auto
qed

lemma parseInt_rounds: "parseInt ''9007199254740993'' = Finite 9007199254740992"
proof -
  have bl: "bitLength 9007199254740993 = 54"
    by (simp add: bitLength.simps)
  have "toNumber 9007199254740993 = Finite 9007199254740992"
    by (simp add: toNumber_def Let_def bl)
  then show ?thesis
    by (simp add: parseInt_def skipWhiteSpace_none strWhiteSpace_def startsWith_def
          stripPrefix_def parseDigits_def decDigits_def)
qed

lemma parseInt_overflows: "parseInt (CHR ''1'' # replicate 309 (CHR ''0'')) = PosInfinity"
proof -
  have ws: "skipWhiteSpace (CHR ''1'' # replicate 309 (CHR ''0''))
              = CHR ''1'' # replicate 309 (CHR ''0'')"
    by (rule skipWhiteSpace_none) (simp add: strWhiteSpace_def startsWith_def)
  have unfold: "replicate 309 (CHR ''0'') = CHR ''0'' # replicate 308 (CHR ''0'')"
    using replicate_Suc [of 308 "CHR ''0''"] by simp
  have "stripPrefix (CHR ''1'' # replicate 309 (CHR ''0''))
          = Some (digitsValue decDigits 10 1 (replicate 309 (CHR ''0'')))"
    by (simp only: unfold) (simp add: stripPrefix_def parseDigits_def decDigits_def)
  then have "stripPrefix (CHR ''1'' # replicate 309 (CHR ''0'')) = Some (10 ^ 309)"
    by (simp only: digitsValue_zeros) simp
  moreover have "toNumber (10 ^ 309) = PosInfinity"
    by (rule toNumber_overflow) simp
  ultimately show ?thesis
    by (simp add: parseInt_def ws)
qed

lemma parseInt_skips_nbsp: "parseInt ([CHR 0xC2, CHR 0xA0] @ ''7'') = Finite 7"
proof -
  have "skipWhiteSpace ([CHR 0xC2, CHR 0xA0] @ ''7'') = skipWhiteSpace ''7''"
    using skipWhiteSpace_some [of "[CHR 0xC2, CHR 0xA0] @ ''7''" "[CHR 0xC2, CHR 0xA0]"]
    by (simp add: strWhiteSpace_def startsWith_def)
  also have "\<dots> = ''7''"
    by (rule skipWhiteSpace_none) (simp add: strWhiteSpace_def startsWith_def)
  finally show ?thesis
    by (simp add: parseInt_def stripPrefix_def parseDigits_def decDigits_def toNumber_def)
qed

theorem pagination_clamped_witness:
  "queryWithPagination (listQuery [(''a'', []), (''b'', []), (''c'', [])])
       (Some ''2'') (Some ''-5'')
     = Inr \<lparr>page = Finite 2, limit = Finite 1, total = 3, totalPages = Finite 3,
            pageData = [JObj [(''_id'', JStr ''b'')]]\<rparr>
   \<and> map_of (objFields (categoryListBody
         \<lparr>page = Finite 2, limit = Finite 1, total = 3, totalPages = Finite 3,
          pageData = [JObj [(''_id'', JStr ''b'')]]\<rparr>)) ''limit'' = Some (JNum 1)
   \<and> limit (paginate [JNull] None (Some ([CHR 0xC2, CHR 0xA0] @ ''7''))) = Finite 7
   \<and> page (paginate [JNull] (Some ''9007199254740993'') None) = Finite 9007199254740992
   \<and> page (paginate [JNull] (Some (CHR ''1'' # replicate 309 (CHR ''0''))) None) = PosInfinity
   \<and> map_of (objFields (categoryListBody
         (paginate [JNull] (Some (CHR ''1'' # replicate 309 (CHR ''0''))) None))) ''page''
       = Some JNull"
proof -
  let ?q = "listQuery [(''a'', []), (''b'', []), (''c'', [])]"
  let ?r = "\<lparr>page = Finite 2, limit = Finite 1, total = 3, totalPages = Finite 3,
             pageData = [JObj [(''_id'', JStr ''b'')]]\<rparr>"
  let ?big = "CHR ''1'' # replicate 309 (CHR ''0'')"
  have run: "queryWithPagination ?q (Some ''2'') (Some ''-5'') = Inr ?r"
    by (simp add: queryWithPagination_def listQuery_def Let_def parseInt_examples
          orDefault_def mathMax_def mathMin_def numSub_def docWithId_def)
  note T = pagination_clamped [of "[]" "Some ''2''" "Some ''-5''" "[]" ?q]
  note R = T [THEN conjunct2, THEN conjunct2, THEN conjunct2, THEN conjunct2,
              THEN conjunct2, THEN conjunct2, THEN conjunct2, THEN conjunct1,
              rule_format, OF run]
  have "map_of (objFields (categoryListBody ?r)) ''limit'' = Some (JNum (intOf (limit ?r)))"
    by (rule R [THEN conjunct2, THEN conjunct2, THEN conjunct2, THEN conjunct2,
                THEN conjunct2, THEN conjunct2, THEN conjunct2, THEN conjunct1])
  then have echo: "map_of (objFields (categoryListBody ?r)) ''limit'' = Some (JNum 1)"
    by (simp add: intOf_def)
  have nbsp: "limit (paginate [JNull] None (Some ([CHR 0xC2, CHR 0xA0] @ ''7''))) = Finite 7"
    by (simp only: paginate_def Let_def option.case parseInt_skips_nbsp)
       (simp add: orDefault_def mathMax_def mathMin_def)
  have rounds: "page (paginate [JNull] (Some ''9007199254740993'') None)
                  = Finite 9007199254740992"
    by (simp only: paginate_def Let_def option.case parseInt_rounds)
       (simp add: orDefault_def mathMax_def)
  have inf: "page (paginate [JNull] (Some ?big) None) = PosInfinity"
    by (simp only: paginate_def Let_def option.case parseInt_overflows)
       (simp add: orDefault_def mathMax_def)
  have "map_of (objFields (categoryListBody (paginate [JNull] (Some ?big) None))) ''page''
          = Some (numJSON (page (paginate [JNull] (Some ?big) None)))"
    by (rule pagination_clamped [THEN conjunct2, THEN conjunct2, THEN conjunct2, THEN conjunct2,
                THEN conjunct2, THEN conjunct2, THEN conjunct1])
  then have null: "map_of (objFields (categoryListBody (paginate [JNull] (Some ?big) None)))
                     ''page'' = Some JNull"
    by (simp only: inf) (simp add: numJSON_def)
  show ?thesis
    by (intro conjI) (fact run echo nbsp rounds inf null)+
qed

text \<open>
  Claim C5. For every array and every pair of inputs, with \<open>p\<close> and \<open>l\<close> the sanitized page
  and limit of the result: \<open>total\<close> is the number of items, \<open>totalPages\<close> is
  \<open>ceil(total / l)\<close> (the least number of pages of \<open>l\<close> items that hold them all), and
  \<open>data\<close> is the items at positions \<open>(p - 1) * l\<close> up to \<open>p * l - 1\<close>, none when the page is
  infinite. With 25 items, \<open>page=2\<close> and \<open>limit=10\<close> the response holds exactly 10 items,
  \<open>total = 25\<close> and \<open>totalPages = 3\<close>.
\<close>

theorem paginate_window:
  "total (paginate xs p l) = int (length xs)
   \<and> limit (paginate xs p l) = Finite (intOf (limit (paginate xs p l)))
   \<and> totalPages (paginate xs p l)
       = Finite \<lceil>real (length xs) / real_of_int (intOf (limit (paginate xs p l)))\<rceil>
   \<and> real_of_int (intOf (totalPages (paginate xs p l)) - 1)
         * real_of_int (intOf (limit (paginate xs p l)))
       < real (length xs)
   \<and> real (length xs)
       \<le> real_of_int (intOf (totalPages (paginate xs p l)))
           * real_of_int (intOf (limit (paginate xs p l)))
   \<and> (page (paginate xs p l) = PosInfinity
        \<or> page (paginate xs p l) = Finite (intOf (page (paginate xs p l))))
   \<and> (\<forall>pg. page (paginate xs p l) = Finite pg
        \<longrightarrow> pageData (paginate xs p l)
              = take (nat (intOf (limit (paginate xs p l))))
                  (drop (nat ((pg - 1) * intOf (limit (paginate xs p l)))) xs)
            \<and> (\<forall>i < length (pageData (paginate xs p l)).
                  pageData (paginate xs p l) ! i
                    = xs ! (nat ((pg - 1) * intOf (limit (paginate xs p l))) + i)))
   \<and> (page (paginate xs p l) = PosInfinity \<longrightarrow> pageData (paginate xs p l) = [])
   \<and> (length ys = 25 \<longrightarrow>
         categoryListBody (paginate ys (Some ''2'') (Some ''10''))
           = JObj [(''success'', JBool True),
                   (''message'', JStr ''Category data fetched successfully''),
                   (''page'', JNum 2), (''limit'', JNum 10), (''total'', JNum 25),
                   (''totalPages'', JNum 3), (''data'', JArr (take 10 (drop 10 ys)))]
         \<and> length (take 10 (drop 10 ys)) = 10)"
proof (intro conjI allI impI)
  let ?n = "intOf (limit (paginate xs p l))"
  have l: "0 < ?n"
    using paginate_limit [of xs p l] by simp
  have tp: "intOf (totalPages (paginate xs p l)) = \<lceil>real (length xs) / real_of_int ?n\<rceil>"
    by (simp add: paginate_totalPages intOf_def)
  show "total (paginate xs p l) = int (length xs)"
    by (rule paginate_total)
  show "limit (paginate xs p l) = Finite ?n"
    using paginate_limit [of xs p l] by simp
  show "totalPages (paginate xs p l) = Finite \<lceil>real (length xs) / real_of_int ?n\<rceil>"
    by (rule paginate_totalPages)
  show "real_of_int (intOf (totalPages (paginate xs p l)) - 1) * real_of_int ?n
          < real (length xs)"
    using ceiling_pages [OF l, of "length xs"] by (simp only: tp)
  show "real (length xs)
          \<le> real_of_int (intOf (totalPages (paginate xs p l))) * real_of_int ?n"
    using ceiling_pages [OF l, of "length xs"] by (simp only: tp)
  show "page (paginate xs p l) = PosInfinity
        \<or> page (paginate xs p l) = Finite (intOf (page (paginate xs p l)))"
    using paginate_page [of xs p l] by blast
next
  fix pg
  assume pg: "page (paginate xs p l) = Finite pg"
  show "pageData (paginate xs p l)
          = take (nat (intOf (limit (paginate xs p l))))
              (drop (nat ((pg - 1) * intOf (limit (paginate xs p l)))) xs)"
    using pg by (rule paginate_pageData)
next
  fix pg i
  assume pg: "page (paginate xs p l) = Finite pg"
    and i: "i < length (pageData (paginate xs p l))"
  let ?n = "intOf (limit (paginate xs p l))"
  have pd: "pageData (paginate xs p l) = take (nat ?n) (drop (nat ((pg - 1) * ?n)) xs)"
    using pg by (rule paginate_pageData)
  from i have "i < length xs - nat ((pg - 1) * ?n)" "i < nat ?n"
    by (simp_all add: pd)
  then have "take (nat ?n) (drop (nat ((pg - 1) * ?n)) xs) ! i
               = xs ! (nat ((pg - 1) * ?n) + i)"
    by (simp add: nth_drop)
  then show "pageData (paginate xs p l) ! i = xs ! (nat ((pg - 1) * ?n) + i)"
    by (simp only: pd)
next
  assume "page (paginate xs p l) = PosInfinity"
  then show "pageData (paginate xs p l) = []"
    by (rule paginate_pageData_infinite)
next
  assume len: "length ys = 25"
  have pg: "page (paginate ys (Some ''2'') (Some ''10'')) = Finite 2"
    "limit (paginate ys (Some ''2'') (Some ''10'')) = Finite 10"
    by (simp_all add: paginate_def Let_def parseInt_examples orDefault_def mathMax_def
          mathMin_def)
  have tp: "totalPages (paginate ys (Some ''2'') (Some ''10'')) = Finite 3"
    by (simp add: paginate_fields pg len)
  have dt: "pageData (paginate ys (Some ''2'') (Some ''10'')) = take 10 (drop 10 ys)"
    using paginate_pageData [OF pg(1)] by (simp add: pg(2) intOf_def)
  show "categoryListBody (paginate ys (Some ''2'') (Some ''10''))
          = JObj [(''success'', JBool True),
                  (''message'', JStr ''Category data fetched successfully''),
                  (''page'', JNum 2), (''limit'', JNum 10), (''total'', JNum 25),
                  (''totalPages'', JNum 3), (''data'', JArr (take 10 (drop 10 ys)))]"
    by (simp add: categoryListBody_def numJSON_def pg tp dt paginate_total len)
  show "length (take 10 (drop 10 ys)) = 10"
    using len by simp
qed

theorem paginate_window_witness:
  "length (replicate 25 JNull) = 25
   \<and> categoryListBody (paginate (replicate 25 JNull) (Some ''2'') (Some ''10''))
       = JObj [(''success'', JBool True),
               (''message'', JStr ''Category data fetched successfully''),
               (''page'', JNum 2), (''limit'', JNum 10), (''total'', JNum 25),
               (''totalPages'', JNum 3), (''data'', JArr (replicate 10 JNull))]
   \<and> pageData (paginate [JNum 1, JNum 2, JNum 3] (Some ''2'') (Some ''2'')) ! 0 = JNum 3
   \<and> page (paginate [JNum 1] (Some (CHR ''1'' # replicate 309 (CHR ''0''))) None) = PosInfinity
   \<and> pageData (paginate [JNum 1] (Some (CHR ''1'' # replicate 309 (CHR ''0''))) None) = []"
proof -
  let ?big = "CHR ''1'' # replicate 309 (CHR ''0'')"
  have inf: "page (paginate [JNum 1] (Some ?big) None) = PosInfinity"
    by (simp only: paginate_def Let_def option.case parseInt_overflows)
       (simp add: orDefault_def mathMax_def)
  have none: "pageData (paginate [JNum 1] (Some ?big) None) = []"
    using inf
    by (rule paginate_window [of "[JNum 1]" "Some ?big" None "[]", THEN conjunct2,
             THEN conjunct2, THEN conjunct2, THEN conjunct2, THEN conjunct2, THEN conjunct2,
             THEN conjunct2, THEN conjunct1, rule_format])
  have len: "length (replicate 25 JNull) = 25" by simp
  have ex: "categoryListBody (paginate (replicate 25 JNull) (Some ''2'') (Some ''10''))
              = JObj [(''success'', JBool True),
                      (''message'', JStr ''Category data fetched successfully''),
                      (''page'', JNum 2), (''limit'', JNum 10), (''total'', JNum 25),
                      (''totalPages'', JNum 3),
                      (''data'', JArr (take 10 (drop 10 (replicate 25 JNull))))]"
    using paginate_window [of "[]" None None "replicate 25 JNull"] len by blast
  let ?xs = "[JNum 1, JNum 2, JNum 3]"
  have pg: "page (paginate ?xs (Some ''2'') (Some ''2'')) = Finite 2"
    "limit (paginate ?xs (Some ''2'') (Some ''2'')) = Finite 2"
    by (simp_all add: paginate_def Let_def parseInt_examples orDefault_def mathMax_def
          mathMin_def)
  note W = paginate_window [of ?xs "Some ''2''" "Some ''2''" "[]", THEN conjunct2,
             THEN conjunct2, THEN conjunct2, THEN conjunct2, THEN conjunct2, THEN conjunct2,
             THEN conjunct1, rule_format, OF pg(1)]
  have pd: "pageData (paginate ?xs (Some ''2'') (Some ''2'')) = [JNum 3]"
    using W [THEN conjunct1] by (simp add: pg(2) intOf_def)
  have "0 < length (pageData (paginate ?xs (Some ''2'') (Some ''2'')))"
    by (simp add: pd)
  then have "pageData (paginate ?xs (Some ''2'') (Some ''2'')) ! 0
      = ?xs ! (nat ((2 - 1) * intOf (limit (paginate ?xs (Some ''2'') (Some ''2'')))) + 0)"
    by (rule W [THEN conjunct2, rule_format])
  then have "pageData (paginate ?xs (Some ''2'') (Some ''2'')) ! 0 = JNum 3"
    by (simp add: pg(2) intOf_def)
  with len ex inf none show ?thesis by simp
qed

section \<open>Properties of the configuration cache\<close>

lemma fetchConfig_truthy: "fetchConfig storage = Inr config \<Longrightarrow> truthy config"
  by (cases config)
     (auto simp: fetchConfig_def getProp_def objFields_def
           split: sum.splits if_splits)

lemma getConfig_fresh:
  assumes "configCache st = Some c" "truthy c" "configLastFetched st = Some t" "t \<noteq> 0"
    "now - t < CONFIG_CACHE_TTL"
  shows "getConfig storage now st = (Inr c, st)"
  using assms by (simp add: getConfig_def truthyCache_def)

lemma getConfig_refresh:
  assumes "\<forall>t. configLastFetched st = Some t \<longrightarrow> CONFIG_CACHE_TTL \<le> now - t"
    "fetchConfig storage = Inr config"
  shows "getConfig storage now st
           = (Inr config, st\<lparr>configCache := Some config, configLastFetched := Some now\<rparr>)"
  using assms by (auto simp: getConfig_def split: option.splits)

lemma getConfig_stale:
  assumes "\<forall>t. configLastFetched st = Some t \<longrightarrow> CONFIG_CACHE_TTL \<le> now - t"
    "fetchConfig storage = Inl e" "configCache st = Some c" "truthy c"
  shows "getConfig storage now st = (Inr c, st)"
  using assms by (auto simp: getConfig_def truthyCache_def split: option.splits)

lemma getConfig_fails_iff:
  assumes "cacheInv st"
  shows "isl (fst (getConfig storage now st)) \<longleftrightarrow>
           isl (fetchConfig storage) \<and> configCache st = None"
  using assms
  by (auto simp: getConfig_def truthyCache_def cacheInv_def
           split: option.splits sum.splits if_splits)

lemma getConfig_cacheInv:
  assumes "cacheInv st" "0 < now"
  shows "cacheInv (snd (getConfig storage now st))"
  using assms fetchConfig_truthy [of storage]
  by (auto simp: getConfig_def cacheInv_def split: option.splits sum.splits if_splits)

lemma initialConfig_cacheInv: "cacheInv initialConfig"
  by (simp add: cacheInv_def initialConfig_def)

lemma reachable_cacheInv: "reachable st \<Longrightarrow> cacheInv st"
  by (induction rule: reachable.induct)
     (simp_all add: initialConfig_cacheInv getConfig_cacheInv)

text \<open>
  Claim C9. In every state the two module variables can be in: a cached config fetched less
  than five minutes ago is returned as it is, whatever the storage holds and with both
  variables unchanged (no refresh); once it has expired, or when there is none, a successful
  refresh is returned and cached with the current time; when the refresh fails the last
  cached value is returned if there is one; the call fails exactly when the refresh fails
  and nothing is cached.
\<close>

theorem getConfig_cache:
  assumes "reachable st"
  shows "CONFIG_CACHE_TTL = 5 * 60 * 1000
   \<and> (\<forall>c t. configCache st = Some c \<and> configLastFetched st = Some t
          \<and> now - t < CONFIG_CACHE_TTL
        \<longrightarrow> (\<forall>other. getConfig other now st = (Inr c, st)))
   \<and> (\<forall>config. (\<forall>t. configLastFetched st = Some t \<longrightarrow> CONFIG_CACHE_TTL \<le> now - t)
          \<and> fetchConfig storage = Inr config
        \<longrightarrow> getConfig storage now st
              = (Inr config, st\<lparr>configCache := Some config, configLastFetched := Some now\<rparr>))
   \<and> (\<forall>c e. (\<forall>t. configLastFetched st = Some t \<longrightarrow> CONFIG_CACHE_TTL \<le> now - t)
          \<and> fetchConfig storage = Inl e \<and> configCache st = Some c
        \<longrightarrow> getConfig storage now st = (Inr c, st))
   \<and> (isl (fst (getConfig storage now st)) \<longleftrightarrow>
        isl (fetchConfig storage) \<and> configCache st = None)"
proof (intro conjI allI impI)
  note inv = reachable_cacheInv [OF assms]
  show "CONFIG_CACHE_TTL = 5 * 60 * 1000"
    by (simp add: CONFIG_CACHE_TTL_def)
  show "getConfig other now st = (Inr c, st)"
    if h: "configCache st = Some c \<and> configLastFetched st = Some t
           \<and> now - t < CONFIG_CACHE_TTL" for c t other
  proof -
    from h inv have "truthy c" "t \<noteq> 0"
      by (auto simp: cacheInv_def)
    with h show ?thesis
      by (simp add: getConfig_fresh)
  qed
  show "getConfig storage now st
          = (Inr config, st\<lparr>configCache := Some config, configLastFetched := Some now\<rparr>)"
    if "(\<forall>t. configLastFetched st = Some t \<longrightarrow> CONFIG_CACHE_TTL \<le> now - t)
        \<and> fetchConfig storage = Inr config" for config
    using that by (simp add: getConfig_refresh)
  show "getConfig storage now st = (Inr c, st)"
    if h: "(\<forall>t. configLastFetched st = Some t \<longrightarrow> CONFIG_CACHE_TTL \<le> now - t)
           \<and> fetchConfig storage = Inl e \<and> configCache st = Some c" for c e
  proof -
    from h inv have "truthy c"
      by (auto simp: cacheInv_def)
    with h show ?thesis
      using getConfig_stale [of st now storage e c] by simp
  qed
  show "isl (fst (getConfig storage now st)) \<longleftrightarrow>
          isl (fetchConfig storage) \<and> configCache st = None"
    using inv by (rule getConfig_fails_iff)
qed

theorem getConfig_cache_witness:
  "reachable \<lparr>configCache = Some (JObj [(''categoryMap'', JObj []),
                                       (''promptDetailsFiles'', JArr [])]),
              configLastFetched = Some 1000\<rparr>
   \<and> getConfig (\<lambda>f. NoFile) 200000
       \<lparr>configCache = Some (JObj [(''categoryMap'', JObj []),
                                  (''promptDetailsFiles'', JArr [])]),
        configLastFetched = Some 1000\<rparr>
       = (Inr (JObj [(''categoryMap'', JObj []), (''promptDetailsFiles'', JArr [])]),
          \<lparr>configCache = Some (JObj [(''categoryMap'', JObj []),
                                     (''promptDetailsFiles'', JArr [])]),
           configLastFetched = Some 1000\<rparr>)
   \<and> getConfig (\<lambda>f. NoFile) 400000
       \<lparr>configCache = Some (JObj [(''categoryMap'', JObj []),
                                  (''promptDetailsFiles'', JArr [])]),
        configLastFetched = Some 1000\<rparr>
       = (Inr (JObj [(''categoryMap'', JObj []), (''promptDetailsFiles'', JArr [])]),
          \<lparr>configCache = Some (JObj [(''categoryMap'', JObj []),
                                     (''promptDetailsFiles'', JArr [])]),
           configLastFetched = Some 1000\<rparr>)
   \<and> isl (fst (getConfig (\<lambda>f. NoFile) 400000 initialConfig))"
proof -
  let ?c = "JObj [(''categoryMap'', JObj []), (''promptDetailsFiles'', JArr [])]"
  let ?st = "\<lparr>configCache = Some ?c, configLastFetched = Some 1000\<rparr>"
  have "reachable (snd (getConfig (\<lambda>f. Contents ?c) 1000 initialConfig))"
    by (rule reachable.call [OF reachable.start]) simp
  moreover have "snd (getConfig (\<lambda>f. Contents ?c) 1000 initialConfig) = ?st"
    by (simp add: getConfig_def initialConfig_def fetchConfig_def fetchJSONFromStorage_def
          getProp_def objFields_def)
  ultimately have r: "reachable ?st"
    by simp
  note T = getConfig_cache [OF r]
  have fresh: "configCache ?st = Some ?c \<and> configLastFetched ?st = Some 1000
               \<and> 200000 - 1000 < CONFIG_CACHE_TTL"
    by (simp add: CONFIG_CACHE_TTL_def)
  have a: "getConfig (\<lambda>f. NoFile) 200000 ?st = (Inr ?c, ?st)"
    by (rule T [THEN conjunct2, THEN conjunct1, rule_format, OF fresh])
  have stale: "(\<forall>t. configLastFetched ?st = Some t \<longrightarrow> CONFIG_CACHE_TTL \<le> 400000 - t)
               \<and> fetchConfig (\<lambda>f. NoFile) = Inl (FILE_NOT_FOUND ''config.json'')
               \<and> configCache ?st = Some ?c"
    by (simp add: CONFIG_CACHE_TTL_def fetchConfig_def fetchJSONFromStorage_def)
  have b: "getConfig (\<lambda>f. NoFile) 400000 ?st = (Inr ?c, ?st)"
    by (rule T [THEN conjunct2, THEN conjunct2, THEN conjunct2, THEN conjunct1,
                rule_format, OF stale])
  have c: "isl (fst (getConfig (\<lambda>f. NoFile) 400000 initialConfig))"
    using getConfig_cache [OF reachable.start, of 400000 "\<lambda>f. NoFile"]
    by (simp add: initialConfig_def fetchConfig_def fetchJSONFromStorage_def)
  show ?thesis
    by (intro conjI) (fact r a b c)+
qed

section \<open>Properties of the API key check\<close>

lemma verifyAPIKey_rejects:
  "xApiKey req = None \<or> xApiKey req = Some [] \<or> xApiKey req \<noteq> Some expectedKey
     \<Longrightarrow> verifyAPIKey expectedKey req = Some forbidden"
  by (auto simp: verifyAPIKey_def Let_def)

lemma verifyAPIKey_accepts:
  "expectedKey \<noteq> [] \<Longrightarrow> xApiKey req = Some expectedKey
     \<Longrightarrow> verifyAPIKey expectedKey req = None"
  by (simp add: verifyAPIKey_def Let_def)

lemma routed_not_forbidden:
  "(case router req of
      Health \<Rightarrow> Responded (healthResponse isoTime)
    | NoRoute \<Rightarrow> Responded (notFoundResponse req)
    | r \<Rightarrow> Runs r) \<noteq> Responded forbidden"
  by (cases "router req") (auto simp: healthResponse_def notFoundResponse_def forbidden_def)

text \<open>
  Claim C6, as the code has it. For every request that gets as far as the key check (every
  request but a preflight, which \<^verbatim>\<open>cors\<close> ends with 204, and one whose body the JSON parser
  rejects, which ends with the status of that error), to \<^verbatim>\<open>/health\<close> as to any other
  path: a missing or empty \<^verbatim>\<open>x-api-key\<close> header, and one that differs from the configured
  secret, is answered with HTTP 403 and the fixed body \<^verbatim>\<open>{success: false, message: ...}\<close>,
  which is the same whatever the secret is. A request with the configured (non-empty) secret
  is never answered with that response: it goes to its route, and \<^verbatim>\<open>GET /health\<close> is then
  answered with 200 and \<^verbatim>\<open>success: true\<close>.
\<close>

theorem apiKey_required_everywhere:
  "(reqMethod req \<noteq> ''OPTIONS'' \<and> bodyError req = None
      \<and> (xApiKey req = None \<or> xApiKey req = Some [] \<or> xApiKey req \<noteq> Some expectedKey)
      \<longrightarrow> app expectedKey isoTime req = Responded forbidden)
   \<and> status forbidden = 403
   \<and> body forbidden
       = JObj [(''success'', JBool False),
               (''message'', JStr (''Forbidden '' @ [CHR 0xE2, CHR 0x80, CHR 0x94]
                                   @ '' Invalid or missing API key''))]
   \<and> (reqMethod req \<noteq> ''OPTIONS'' \<and> bodyError req = None
        \<and> expectedKey \<noteq> [] \<and> xApiKey req = Some expectedKey
      \<longrightarrow> app expectedKey isoTime req
            = (case router req of
                 Health \<Rightarrow> Responded (healthResponse isoTime)
               | NoRoute \<Rightarrow> Responded (notFoundResponse req)
               | r \<Rightarrow> Runs r)
          \<and> app expectedKey isoTime req \<noteq> Responded forbidden)
   \<and> (bodyError req = None \<and> expectedKey \<noteq> [] \<and> xApiKey req = Some expectedKey
        \<and> reqMethod req = ''GET'' \<and> reqPath req = ''/health''
      \<longrightarrow> app expectedKey isoTime req = Responded (healthResponse isoTime)
          \<and> status (healthResponse isoTime) = 200
          \<and> map_of (objFields (body (healthResponse isoTime))) ''success''
              = Some (JBool True))
   \<and> (reqMethod req = ''OPTIONS'' \<longrightarrow> app expectedKey isoTime req = Ended 204)
   \<and> (reqMethod req \<noteq> ''OPTIONS'' \<and> bodyError req = Some s
      \<longrightarrow> app expectedKey isoTime req = Ended s)"
proof (intro conjI impI)
  assume h: "reqMethod req \<noteq> ''OPTIONS'' \<and> bodyError req = None
      \<and> (xApiKey req = None \<or> xApiKey req = Some [] \<or> xApiKey req \<noteq> Some expectedKey)"
  then have "verifyAPIKey expectedKey req = Some forbidden"
    by (intro verifyAPIKey_rejects) simp
  with h show "app expectedKey isoTime req = Responded forbidden"
    by (simp add: app_def)
next
  show "status forbidden = 403"
    by (simp add: forbidden_def)
  show "body forbidden
       = JObj [(''success'', JBool False),
               (''message'', JStr (''Forbidden '' @ [CHR 0xE2, CHR 0x80, CHR 0x94]
                                   @ '' Invalid or missing API key''))]"
    by (simp add: forbidden_def)
next
  assume h: "reqMethod req \<noteq> ''OPTIONS'' \<and> bodyError req = None
        \<and> expectedKey \<noteq> [] \<and> xApiKey req = Some expectedKey"
  then have "verifyAPIKey expectedKey req = None"
    by (intro verifyAPIKey_accepts) simp_all
  with h show routed: "app expectedKey isoTime req
            = (case router req of
                 Health \<Rightarrow> Responded (healthResponse isoTime)
               | NoRoute \<Rightarrow> Responded (notFoundResponse req)
               | r \<Rightarrow> Runs r)"
    by (simp add: app_def)
  show "app expectedKey isoTime req \<noteq> Responded forbidden"
    by (simp only: routed routed_not_forbidden not_False_eq_True)
next
  assume h: "bodyError req = None \<and> expectedKey \<noteq> [] \<and> xApiKey req = Some expectedKey
        \<and> reqMethod req = ''GET'' \<and> reqPath req = ''/health''"
  then have "verifyAPIKey expectedKey req = None"
    by (intro verifyAPIKey_accepts) simp_all
  with h show "app expectedKey isoTime req = Responded (healthResponse isoTime)"
    by (simp add: app_def router_def)
  show "status (healthResponse isoTime) = 200"
    by (simp add: healthResponse_def)
  show "map_of (objFields (body (healthResponse isoTime))) ''success'' = Some (JBool True)"
    by (simp add: healthResponse_def objFields_def)
next
  assume "reqMethod req = ''OPTIONS''"
  then show "app expectedKey isoTime req = Ended 204"
    by (simp add: app_def)
next
  assume "reqMethod req \<noteq> ''OPTIONS'' \<and> bodyError req = Some s"
  then show "app expectedKey isoTime req = Ended s"
    by (simp add: app_def)
qed

theorem apiKey_required_everywhere_witness:
  "app ''s3cret'' ''2025-01-01T00:00:00.000Z''
     \<lparr>reqMethod = ''POST'', reqPath = ''/getCategoryList'', xApiKey = Some ''guess'',
      bodyError = None\<rparr>
     = Responded forbidden
   \<and> app '''' ''2025-01-01T00:00:00.000Z''
     \<lparr>reqMethod = ''GET'', reqPath = ''/getCategory'', xApiKey = Some '''',
      bodyError = None\<rparr>
     = Responded forbidden
   \<and> app ''s3cret'' ''2025-01-01T00:00:00.000Z''
     \<lparr>reqMethod = ''GET'', reqPath = ''/health'', xApiKey = Some ''s3cret'',
      bodyError = None\<rparr>
     = Responded (healthResponse ''2025-01-01T00:00:00.000Z'')
   \<and> app ''s3cret'' ''2025-01-01T00:00:00.000Z''
     \<lparr>reqMethod = ''POST'', reqPath = ''/getCategoryList'', xApiKey = Some ''s3cret'',
      bodyError = None\<rparr>
     = Runs GetCategoryList"
proof -
  let ?bad = "\<lparr>reqMethod = ''POST'', reqPath = ''/getCategoryList'', xApiKey = Some ''guess'',
                bodyError = None\<rparr>"
  let ?empty = "\<lparr>reqMethod = ''GET'', reqPath = ''/getCategory'', xApiKey = Some '''',
                  bodyError = None\<rparr>"
  let ?ok = "\<lparr>reqMethod = ''GET'', reqPath = ''/health'', xApiKey = Some ''s3cret'',
               bodyError = None\<rparr>"
  let ?list = "\<lparr>reqMethod = ''POST'', reqPath = ''/getCategoryList'',
                 xApiKey = Some ''s3cret'', bodyError = None\<rparr>"
  have h1: "reqMethod ?bad \<noteq> ''OPTIONS'' \<and> bodyError ?bad = None
            \<and> (xApiKey ?bad = None \<or> xApiKey ?bad = Some []
                \<or> xApiKey ?bad \<noteq> Some ''s3cret'')"
    by simp
  have a: "app ''s3cret'' ''2025-01-01T00:00:00.000Z'' ?bad = Responded forbidden"
    by (rule apiKey_required_everywhere [THEN conjunct1, rule_format, OF h1])
  have h2: "reqMethod ?empty \<noteq> ''OPTIONS'' \<and> bodyError ?empty = None
            \<and> (xApiKey ?empty = None \<or> xApiKey ?empty = Some []
                \<or> xApiKey ?empty \<noteq> Some '''')"
    by simp
  have b: "app '''' ''2025-01-01T00:00:00.000Z'' ?empty = Responded forbidden"
    by (rule apiKey_required_everywhere [THEN conjunct1, rule_format, OF h2])
  have h3: "bodyError ?ok = None \<and> ''s3cret'' \<noteq> [] \<and> xApiKey ?ok = Some ''s3cret''
            \<and> reqMethod ?ok = ''GET'' \<and> reqPath ?ok = ''/health''"
    by simp
  have c: "app ''s3cret'' ''2025-01-01T00:00:00.000Z'' ?ok
             = Responded (healthResponse ''2025-01-01T00:00:00.000Z'')"
    by (rule apiKey_required_everywhere
          [THEN conjunct2, THEN conjunct2, THEN conjunct2, THEN conjunct2, THEN conjunct1,
           rule_format, OF h3, THEN conjunct1])
  have h4: "reqMethod ?list \<noteq> ''OPTIONS'' \<and> bodyError ?list = None
            \<and> ''s3cret'' \<noteq> [] \<and> xApiKey ?list = Some ''s3cret''"
    by simp
  have "app ''s3cret'' ''2025-01-01T00:00:00.000Z'' ?list
          = (case router ?list of
               Health \<Rightarrow> Responded (healthResponse ''2025-01-01T00:00:00.000Z'')
             | NoRoute \<Rightarrow> Responded (notFoundResponse ?list)
             | r \<Rightarrow> Runs r)"
    by (rule apiKey_required_everywhere
          [THEN conjunct2, THEN conjunct2, THEN conjunct2, THEN conjunct1,
           rule_format, OF h4, THEN conjunct1])
  then have d: "app ''s3cret'' ''2025-01-01T00:00:00.000Z'' ?list = Runs GetCategoryList"
    by (simp add: router_def)
  show ?thesis
    by (intro conjI) (fact a b c d)+
qed

text \<open>The claim as the specification words it fails. \<^verbatim>\<open>GET /health\<close> without the header is
  rejected like any other request; and on an endpoint other than \<^verbatim>\<open>/health\<close>, a request
  without the header is not answered with 403 when it is a preflight (204) or when its body
  is rejected by the JSON parser (here with 400).\<close>

theorem health_needs_key_counterexample:
  "app ''s3cret'' ''2025-01-01T00:00:00.000Z''
     \<lparr>reqMethod = ''GET'', reqPath = ''/health'', xApiKey = None, bodyError = None\<rparr>
     = Responded forbidden
   \<and> status forbidden = 403
   \<and> app ''s3cret'' ''2025-01-01T00:00:00.000Z''
     \<lparr>reqMethod = ''OPTIONS'', reqPath = ''/getCategory'', xApiKey = None, bodyError = None\<rparr>
     = Ended 204
   \<and> app ''s3cret'' ''2025-01-01T00:00:00.000Z''
     \<lparr>reqMethod = ''POST'', reqPath = ''/getCategoryList'', xApiKey = None,
      bodyError = Some 400\<rparr>
     = Ended 400"
  by (simp add: app_def verifyAPIKey_def forbidden_def)

section \<open>Properties of the batch writer\<close>

lemma splitSlash_plain: "CHR ''/'' \<notin> set s \<Longrightarrow> splitSlash s = [s]"
  by (induction s) auto

lemma hasDoubleSlash_plain: "CHR ''/'' \<notin> set s \<Longrightarrow> \<not> hasDoubleSlash s"
  by (induction s rule: hasDoubleSlash.induct) auto

lemma segments_plain: "plain s \<Longrightarrow> segments s = [s]"
  by (simp add: plain_def segments_def splitSlash_plain)

lemma validateResourcePath_plain: "plain s \<Longrightarrow> validateResourcePath s"
  by (simp add: plain_def validateResourcePath_def hasDoubleSlash_plain)

lemma collectionPath_plain: "plain c \<Longrightarrow> collectionPath c = Some [c]"
  by (simp add: collectionPath_def segments_plain validateResourcePath_plain)

lemma doc_plain: "plain c \<Longrightarrow> plain k \<Longrightarrow> doc c (JStr k) = Some (c, k)"
  by (simp add: doc_def collectionPath_plain segments_plain validateResourcePath_plain)

lemma existing_plain:
  "plain c \<Longrightarrow> getExistingDocIds env db c = (if scanFails env then {} else dom (db c))"
  by (simp add: getExistingDocIds_def collectionPath_plain)

lemma fold_prepare:
  "fold (prepare env c mode ex) chunk ((b, n), w) =
     ((b @ queued env c mode ex chunk, n + length (queued env c mode ex chunk)),
      w\<lparr>skippedCount := skippedCount w + length (filter (isSkipped mode ex) chunk),
        errorCount := errorCount w + length (filter (isRejected env c mode ex) chunk)\<rparr>)"
proof (induction chunk arbitrary: b n w)
  case Nil
  then show ?case by (simp add: queued_def List.map_filter_simps)
next
  case (Cons it chunk)
  show ?case
  proof (cases "isSkipped mode ex it")
    case True
    then have "prepare env c mode ex it ((b, n), w) = ((b, n), w\<lparr>skippedCount := skippedCount w + 1\<rparr>)"
      by (simp add: prepare_def isSkipped_def)
    with True show ?thesis
      by (simp add: Cons.IH queued_def queuedOp_def isRejected_def List.map_filter_simps)
  next
    case False
    show ?thesis
    proof (cases "doc c (docId it)")
      case None
      with False have "prepare env c mode ex it ((b, n), w)
                         = ((b, n), w\<lparr>errorCount := errorCount w + 1\<rparr>)"
        by (auto simp: prepare_def isSkipped_def)
      with False None show ?thesis
        by (simp add: Cons.IH queued_def queuedOp_def isRejected_def List.map_filter_simps)
    next
      case (Some docRef)
      show ?thesis
      proof (cases "setRejects env (docData it)")
        case True
        with False Some have "prepare env c mode ex it ((b, n), w)
                                = ((b, n), w\<lparr>errorCount := errorCount w + 1\<rparr>)"
          by (auto simp: prepare_def isSkipped_def)
        with False Some True show ?thesis
          by (simp add: Cons.IH queued_def queuedOp_def isRejected_def List.map_filter_simps)
      next
        case accepted: False
        with False Some have "prepare env c mode ex it ((b, n), w)
                           = ((b @ [SetOp docRef (docData it) (mode = ''force'')], n + 1), w)"
          by (auto simp: prepare_def isSkipped_def)
        with False Some accepted show ?thesis
          by (simp add: Cons.IH queued_def queuedOp_def isRejected_def List.map_filter_simps)
      qed
    qed
  qed
qed

lemma chunk_index: "j < nChunks data \<longleftrightarrow> j * batchSize < length data"
proof -
  have pos: "0 < batchSize" by (simp add: batchSize_def)
  show ?thesis
  proof
    assume "j < nChunks data"
    then have "Suc j \<le> (length data + batchSize - 1) div batchSize"
      by (simp add: nChunks_def)
    then have "Suc j * batchSize \<le> length data + batchSize - 1"
      using pos by (simp add: less_eq_div_iff_mult_less_eq)
    then show "j * batchSize < length data"
      using pos by simp
  next
    assume "j * batchSize < length data"
    then have "Suc j * batchSize \<le> length data + batchSize - 1"
      using pos by simp
    then have "Suc j \<le> (length data + batchSize - 1) div batchSize"
      using pos by (simp add: less_eq_div_iff_mult_less_eq)
    then show "j < nChunks data"
      by (simp add: nChunks_def)
  qed
qed

lemma batchLoop_chunks:
  "batchLoop env c mode ex data (j * batchSize) w
     = fold (chunkStep env c mode ex data) [j..<nChunks data] w"
proof (induction "nChunks data - j" arbitrary: j w)
  case 0
  then have "\<not> j < nChunks data" by simp
  then have "\<not> j * batchSize < length data"
    by (simp add: chunk_index)
  with 0 show ?case
    by (simp add: batchLoop.simps [of env c mode ex data "j * batchSize"])
next
  case (Suc m)
  then have lt: "j < nChunks data" by simp
  then have idx: "j * batchSize < length data"
    by (simp add: chunk_index)
  have m: "m = nChunks data - Suc j"
    using Suc.hyps(2) by simp
  have "batchLoop env c mode ex data (j * batchSize) w
          = batchLoop env c mode ex data (Suc j * batchSize) (chunkStep env c mode ex data j w)"
    using idx
    by (simp add: batchLoop.simps [of env c mode ex data "j * batchSize"]
          chunkStep_def chunkAt_def Let_def add.commute)
  also have "\<dots> = fold (chunkStep env c mode ex data) [Suc j..<nChunks data]
                     (chunkStep env c mode ex data j w)"
    by (rule Suc.hyps(1) [OF m])
  also have "\<dots> = fold (chunkStep env c mode ex data) [j..<nChunks data] w"
    using lt by (simp add: upt_conv_Cons)
  finally show ?case .
qed

lemma chunkStep_eq:
  "chunkStep env c mode ex data j w =
     (let ops = queued env c mode ex (chunkAt data j);
          w1 = w\<lparr>skippedCount := skippedCount w
                      + length (filter (isSkipped mode ex) (chunkAt data j)),
                  errorCount := errorCount w
                      + length (filter (isRejected env c mode ex) (chunkAt data j))\<rparr>
      in if ops = [] then w1
         else if commitFails env j
              then w1\<lparr>errorCount := errorCount w1 + length ops,
                      commits := commits w1 @ [(ops, False)]\<rparr>
              else w1\<lparr>successCount := successCount w1 + length ops,
                      store := fold applyOp ops (store w1),
                      commits := commits w1 @ [(ops, True)]\<rparr>)"
  by (simp add: chunkStep_def fold_prepare commitBatch_def Let_def batchSize_def)

lemma fold_chunkStep_commits:
  "commits (fold (chunkStep env c mode ex data) js w)
     = commits w @ map (\<lambda>j. (queued env c mode ex (chunkAt data j), \<not> commitFails env j))
                     (filter (\<lambda>j. queued env c mode ex (chunkAt data j) \<noteq> []) js)"
  by (induction js arbitrary: w) (simp_all add: chunkStep_eq Let_def)

lemma fold_chunkStep_skipped:
  "skippedCount (fold (chunkStep env c mode ex data) js w)
     = skippedCount w
       + length (filter (isSkipped mode ex) (concat (map (chunkAt data) js)))"
  by (induction js arbitrary: w) (simp_all add: chunkStep_eq Let_def)

lemma fold_chunkStep_error:
  "errorCount (fold (chunkStep env c mode ex data) js w)
     = errorCount w
       + length (filter (isRejected env c mode ex) (concat (map (chunkAt data) js)))
       + length (concat (map (\<lambda>j. queued env c mode ex (chunkAt data j))
                           (filter (commitFails env) js)))"
  by (induction js arbitrary: w) (simp_all add: chunkStep_eq Let_def)

lemma fold_chunkStep_success:
  "successCount (fold (chunkStep env c mode ex data) js w)
     = successCount w
       + length (concat (map (\<lambda>j. queued env c mode ex (chunkAt data j))
                           (filter (\<lambda>j. \<not> commitFails env j) js)))"
  by (induction js arbitrary: w) (simp_all add: chunkStep_eq Let_def)

lemma fold_chunkStep_store:
  "store (fold (chunkStep env c mode ex data) js w)
     = fold applyOp (concat (map (\<lambda>j. queued env c mode ex (chunkAt data j))
                               (filter (\<lambda>j. \<not> commitFails env j) js)))
         (store w)"
  by (induction js arbitrary: w) (simp_all add: chunkStep_eq Let_def)

lemma concat_chunks_from:
  "concat (map (chunkAt data) [j..<nChunks data]) = drop (j * batchSize) data"
proof (induction "nChunks data - j" arbitrary: j)
  case 0
  then have "\<not> j < nChunks data" by simp
  then have "\<not> j * batchSize < length data"
    by (simp add: chunk_index)
  with 0 show ?case by simp
next
  case (Suc m)
  then have lt: "j < nChunks data" by simp
  have m: "m = nChunks data - Suc j"
    using Suc.hyps(2) by simp
  have "concat (map (chunkAt data) [j..<nChunks data])
          = chunkAt data j @ concat (map (chunkAt data) [Suc j..<nChunks data])"
    using lt by (simp add: upt_conv_Cons)
  also have "\<dots> = take batchSize (drop (j * batchSize) data) @ drop (Suc j * batchSize) data"
    by (simp add: Suc.hyps(1) [OF m] chunkAt_def)
  also have "\<dots> = take batchSize (drop (j * batchSize) data)
                    @ drop batchSize (drop (j * batchSize) data)"
    by (simp add: add.commute)
  also have "\<dots> = drop (j * batchSize) data"
    by (rule append_take_drop_id)
  finally show ?case .
qed

lemma concat_chunks: "concat (map (chunkAt data) [0..<nChunks data]) = data"
  using concat_chunks_from [of data 0] by simp

lemma chunk_length:
  assumes "j < nChunks data"
  shows "0 < length (chunkAt data j) \<and> length (chunkAt data j) \<le> batchSize"
  using assms by (simp add: chunk_index chunkAt_def batchSize_def)

lemma nChunks_ceiling: "int (nChunks data) = \<lceil>real (length data) / 500\<rceil>"
proof -
  have "\<lceil>real (length data) / 500\<rceil> = - ((- int (length data)) div 500)"
    using ceiling_divide_eq_div [of "int (length data)" 500] by simp
  also have "\<dots> = (int (length data) + 499) div 500"
    by linarith
  also have "\<dots> = int ((length data + 499) div 500)"
    by (simp add: zdiv_int)
  finally show ?thesis
    by (simp add: nChunks_def batchSize_def)
qed

lemma queued_concat:
  "queued env c mode ex (concat xss) = concat (map (queued env c mode ex) xss)"
  by (induction xss) (simp_all add: queued_def map_filter_def)

lemma writer_as_fold:
  "batchWriteToFirestore env db c data mode
     = fold (chunkStep env c mode (existingFor env db c mode) data) [0..<nChunks data]
         \<lparr>successCount = 0, errorCount = 0, skippedCount = 0, store = db, commits = []\<rparr>"
proof (cases "data = []")
  case True
  then show ?thesis
    by (simp add: batchWriteToFirestore_def nChunks_def batchSize_def)
next
  case False
  then show ?thesis
    using batchLoop_chunks [of env c mode "existingFor env db c mode" data 0]
    by (simp add: batchWriteToFirestore_def existingFor_def Let_def)
qed

lemma batchOf_fun:
  "(\<lambda>j. queued env c mode (existingFor env db c mode) (chunkAt data j))
     = batchOf env db c data mode"
  by (simp add: batchOf_def fun_eq_iff)

lemma writer_commits:
  "commits (batchWriteToFirestore env db c data mode)
     = map (\<lambda>j. (batchOf env db c data mode j, \<not> commitFails env j))
         (filter (\<lambda>j. batchOf env db c data mode j \<noteq> []) [0..<nChunks data])"
  by (simp add: writer_as_fold fold_chunkStep_commits batchOf_def)

lemma writer_skipped:
  "skippedCount (batchWriteToFirestore env db c data mode)
     = length (filter (isSkipped mode (existingFor env db c mode)) data)"
  by (simp add: writer_as_fold fold_chunkStep_skipped concat_chunks)

lemma writer_error:
  "errorCount (batchWriteToFirestore env db c data mode)
     = length (filter (isRejected env c mode (existingFor env db c mode)) data)
       + length (concat (map (batchOf env db c data mode)
                           (filter (commitFails env) [0..<nChunks data])))"
  by (simp add: writer_as_fold fold_chunkStep_error concat_chunks batchOf_fun)

lemma writer_success:
  "successCount (batchWriteToFirestore env db c data mode)
     = length (concat (map (batchOf env db c data mode)
                         (filter (\<lambda>j. \<not> commitFails env j) [0..<nChunks data])))"
  by (simp add: writer_as_fold fold_chunkStep_success batchOf_fun)

lemma writer_store:
  "store (batchWriteToFirestore env db c data mode)
     = fold applyOp (concat (map (batchOf env db c data mode)
                               (filter (\<lambda>j. \<not> commitFails env j) [0..<nChunks data])))
         db"
  by (simp add: writer_as_fold fold_chunkStep_store batchOf_fun)

lemma concat_batches:
  "concat (map (batchOf env db c data mode) [0..<nChunks data])
     = queued env c mode (existingFor env db c mode) data"
proof -
  have "concat (map (batchOf env db c data mode) [0..<nChunks data])
          = concat (map (queued env c mode (existingFor env db c mode))
                      (map (chunkAt data) [0..<nChunks data]))"
    by (simp add: batchOf_fun [symmetric] comp_def)
  also have "\<dots> = queued env c mode (existingFor env db c mode) data"
    by (simp only: queued_concat [symmetric] concat_chunks)
  finally show ?thesis .
qed

lemma length_concat_split:
  "length (concat (map f (filter P js))) + length (concat (map f (filter (\<lambda>j. \<not> P j) js)))
     = length (concat (map f js))"
  by (induction js) simp_all

lemma length_three_way:
  "length (filter (isSkipped mode ex) xs) + length (filter (isRejected env c mode ex) xs)
     + length (queued env c mode ex xs) = length xs"
proof (induction xs)
  case Nil
  then show ?case by (simp add: queued_def map_filter_def)
next
  case (Cons it xs)
  have "queued env c mode ex (it # xs)
          = (case queuedOp env c mode ex it of None \<Rightarrow> [] | Some w \<Rightarrow> [w]) @ queued env c mode ex xs"
    by (simp add: queued_def map_filter_def split: option.splits)
  with Cons show ?case
    by (cases "doc c (docId it)") (auto simp: queuedOp_def isRejected_def)
qed

lemma writer_total:
  "successCount (batchWriteToFirestore env db c data mode)
   + errorCount (batchWriteToFirestore env db c data mode)
   + skippedCount (batchWriteToFirestore env db c data mode) = length data"
proof -
  let ?ex = "existingFor env db c mode"
  have "length (concat (map (batchOf env db c data mode)
                          (filter (commitFails env) [0..<nChunks data])))
        + length (concat (map (batchOf env db c data mode)
                            (filter (\<lambda>j. \<not> commitFails env j) [0..<nChunks data])))
        = length (queued env c mode ?ex data)"
    by (simp only: length_concat_split concat_batches)
  moreover note length_three_way [of mode ?ex data env c]
  ultimately show ?thesis
    by (simp add: writer_success writer_error writer_skipped)
qed

lemma queued_all_skipped:
  "(\<And>it. it \<in> set chunk \<Longrightarrow> isSkipped mode ex it) \<Longrightarrow> queued env c mode ex chunk = []"
  by (induction chunk) (simp_all add: queued_def map_filter_def queuedOp_def)

lemma queued_all_valid:
  "(\<And>it. it \<in> set chunk \<Longrightarrow> \<not> isSkipped mode ex it \<and> doc c (docId it) \<noteq> None
            \<and> \<not> setRejects env (docData it))
     \<Longrightarrow> length (queued env c mode ex chunk) = length chunk"
  using length_three_way [of mode ex chunk env c]
  by (simp add: isRejected_def filter_False)

lemma set_chunkAt: "set (chunkAt data j) \<subseteq> set data"
  by (auto simp: chunkAt_def dest: in_set_takeD in_set_dropD)

lemma not_skipped_unless_update: "mode \<noteq> ''update'' \<Longrightarrow> \<not> isSkipped mode ex it"
  by (simp add: isSkipped_def)

lemma queued_commitFails:
  "queued (env\<lparr>commitFails := f\<rparr>) c mode ex chunk = queued env c mode ex chunk"
proof -
  have "queuedOp (env\<lparr>commitFails := f\<rparr>) c mode ex = queuedOp env c mode ex"
    by (intro ext) (simp add: queuedOp_def)
  then show ?thesis
    by (simp add: queued_def)
qed

lemma batchOf_commitFails:
  "batchOf (env\<lparr>commitFails := f\<rparr>) db c data mode j = batchOf env db c data mode j"
  by (simp add: batchOf_def existingFor_def getExistingDocIds_def queued_commitFails
        split: option.splits)

text \<open>
  Claim C2, as the code has it. The records are cut into \<open>ceil(n / 500)\<close> chunks of at
  most 500, in order. A commit is issued for each chunk that has at least one queued record,
  and for no other: a chunk whose records were all skipped or rejected issues none, so there
  are at most \<open>ceil(n / 500)\<close> commits, and exactly that many when every chunk has a
  queued record, as in every mode other than update when every record is accepted. A
  rejected commit counts every record queued in its batch as failed, a successful one as
  succeeded. Which commits are issued, and with which operations, does not depend on which
  of them are rejected.
\<close>

theorem writer_commits_per_chunk:
  "concat (map (chunkAt data) [0..<nChunks data]) = data
   \<and> int (nChunks data) = \<lceil>real (length data) / 500\<rceil>
   \<and> (\<forall>j < nChunks data. 0 < length (chunkAt data j) \<and> length (chunkAt data j) \<le> 500)
   \<and> commits (batchWriteToFirestore env db c data mode)
       = map (\<lambda>j. (batchOf env db c data mode j, \<not> commitFails env j))
           (filter (\<lambda>j. batchOf env db c data mode j \<noteq> []) [0..<nChunks data])
   \<and> length (commits (batchWriteToFirestore env db c data mode)) \<le> nChunks data
   \<and> (mode \<noteq> ''update''
        \<and> (\<forall>it \<in> set data. doc c (docId it) \<noteq> None \<and> \<not> setRejects env (docData it))
        \<longrightarrow> length (commits (batchWriteToFirestore env db c data mode)) = nChunks data)
   \<and> errorCount (batchWriteToFirestore env db c data mode)
       = length (filter (isRejected env c mode (existingFor env db c mode)) data)
         + length (concat (map (batchOf env db c data mode)
                             (filter (commitFails env) [0..<nChunks data])))
   \<and> successCount (batchWriteToFirestore env db c data mode)
       = length (concat (map (batchOf env db c data mode)
                           (filter (\<lambda>j. \<not> commitFails env j) [0..<nChunks data])))
   \<and> map fst (commits (batchWriteToFirestore (env\<lparr>commitFails := f\<rparr>) db c data mode))
       = map fst (commits (batchWriteToFirestore env db c data mode))"
proof (intro conjI allI impI)
  show "concat (map (chunkAt data) [0..<nChunks data]) = data"
    by (rule concat_chunks)
  show "int (nChunks data) = \<lceil>real (length data) / 500\<rceil>"
    by (rule nChunks_ceiling)
  show "commits (batchWriteToFirestore env db c data mode)
          = map (\<lambda>j. (batchOf env db c data mode j, \<not> commitFails env j))
              (filter (\<lambda>j. batchOf env db c data mode j \<noteq> []) [0..<nChunks data])"
    by (rule writer_commits)
  have "length (filter (\<lambda>j. batchOf env db c data mode j \<noteq> []) [0..<nChunks data])
          \<le> length [0..<nChunks data]"
    by (rule length_filter_le)
  then show "length (commits (batchWriteToFirestore env db c data mode)) \<le> nChunks data"
    by (simp add: writer_commits)
  show "errorCount (batchWriteToFirestore env db c data mode)
          = length (filter (isRejected env c mode (existingFor env db c mode)) data)
            + length (concat (map (batchOf env db c data mode)
                                (filter (commitFails env) [0..<nChunks data])))"
    by (rule writer_error)
  show "successCount (batchWriteToFirestore env db c data mode)
          = length (concat (map (batchOf env db c data mode)
                              (filter (\<lambda>j. \<not> commitFails env j) [0..<nChunks data])))"
    by (rule writer_success)
  show "map fst (commits (batchWriteToFirestore (env\<lparr>commitFails := f\<rparr>) db c data mode))
          = map fst (commits (batchWriteToFirestore env db c data mode))"
    by (simp add: writer_commits batchOf_commitFails comp_def)
next
  fix j
  assume "j < nChunks data"
  then show "0 < length (chunkAt data j)" "length (chunkAt data j) \<le> 500"
    using chunk_length [of j data] by (simp_all add: batchSize_def)
next
  assume h: "mode \<noteq> ''update''
             \<and> (\<forall>it \<in> set data. doc c (docId it) \<noteq> None \<and> \<not> setRejects env (docData it))"
  have "batchOf env db c data mode j \<noteq> []" if "j < nChunks data" for j
  proof -
    have "length (batchOf env db c data mode j) = length (chunkAt data j)"
      unfolding batchOf_def
      using h set_chunkAt [of data j]
      by (intro queued_all_valid) (auto simp: not_skipped_unless_update)
    with chunk_length [OF that] show ?thesis by auto
  qed
  then have "filter (\<lambda>j. batchOf env db c data mode j \<noteq> []) [0..<nChunks data]
               = [0..<nChunks data]"
    by (simp add: filter_id_conv)
  then show "length (commits (batchWriteToFirestore env db c data mode)) = nChunks data"
    by (simp add: writer_commits)
qed

theorem writer_commits_per_chunk_witness:
  "nChunks (replicate 501 \<lparr>docId = JStr ''p'', docData = []\<rparr>) = 2
   \<and> length (commits (batchWriteToFirestore \<lparr>scanFails = False, commitFails = (\<lambda>j. j = 0),
       setRejects = (\<lambda>fs. False)\<rparr>
                (\<lambda>n. Map.empty) ''prompts''
                (replicate 501 \<lparr>docId = JStr ''p'', docData = []\<rparr>) ''fresh'')) = 2"
proof -
  let ?data = "replicate 501 \<lparr>docId = JStr ''p'', docData = []\<rparr>"
  let ?env = "\<lparr>scanFails = False, commitFails = (\<lambda>j. j = 0),
       setRejects = (\<lambda>fs. False)\<rparr>"
  have n: "nChunks ?data = 2"
    by (simp add: nChunks_def batchSize_def)
  have h: "''fresh'' \<noteq> ''update''
           \<and> (\<forall>it \<in> set ?data. doc ''prompts'' (docId it) \<noteq> None
                 \<and> \<not> setRejects ?env (docData it))"
    by (simp add: doc_plain plain_def)
  have "length (commits (batchWriteToFirestore ?env (\<lambda>n. Map.empty) ''prompts'' ?data ''fresh''))
          = nChunks ?data"
    using writer_commits_per_chunk [of ?data ?env "\<lambda>n. Map.empty" "''prompts''" "''fresh''"] h
    by blast
  with n show ?thesis by simp
qed

text \<open>The claim as the specification words it fails: in update mode, 501 records whose
  document already exists make two chunks and not a single commit.\<close>

theorem all_skipped_no_commit_counterexample:
  "length (replicate 501 \<lparr>docId = JStr ''p'', docData = []\<rparr>) = 501
   \<and> \<lceil>real (length (replicate 501 \<lparr>docId = JStr ''p'', docData = []\<rparr>)) / 500\<rceil> = 2
   \<and> commits (batchWriteToFirestore \<lparr>scanFails = False, commitFails = (\<lambda>j. False),
       setRejects = (\<lambda>fs. False)\<rparr>
                ((\<lambda>n. Map.empty)(''prompts'' := [''p'' \<mapsto> [(''title'', JStr ''old'')]]))
                ''prompts''
                (replicate 501 \<lparr>docId = JStr ''p'', docData = []\<rparr>) ''update'') = []"
proof -
  let ?data = "replicate 501 \<lparr>docId = JStr ''p'', docData = []\<rparr>"
  let ?env = "\<lparr>scanFails = False, commitFails = (\<lambda>j. False),
       setRejects = (\<lambda>fs. False)\<rparr>"
  let ?db = "(\<lambda>n. Map.empty)(''prompts'' := [''p'' \<mapsto> [(''title'', JStr ''old'')]])"
  have skipped: "isSkipped ''update'' (existingFor ?env ?db ''prompts'' ''update'') it"
    if "it \<in> set ?data" for it
    using that
    by (simp add: isSkipped_def existingFor_def existing_plain plain_def has_def)
  have "batchOf ?env ?db ''prompts'' ?data ''update'' j = []" for j
    unfolding batchOf_def
    using set_chunkAt [of ?data j]
    by (intro queued_all_skipped skipped) blast
  then have "commits (batchWriteToFirestore ?env ?db ''prompts'' ?data ''update'') = []"
    by (simp add: writer_commits)
  moreover have "\<lceil>real (length ?data) / 500\<rceil> = 2"
    by simp
  ultimately show ?thesis by simp
qed

subsection \<open>The effect of the committed operations\<close>



lemma applyOp_at:
  "applyOp (SetOp (c, k) new merge) db c k
     = Some (if merge then mergeFields (case db c k of None \<Rightarrow> [] | Some old \<Rightarrow> old) new
             else new)"
  by (simp add: applyOp_def)




lemma single_chunk:
  assumes "data \<noteq> []" "length data \<le> 500"
  shows "nChunks data = 1" "chunkAt data 0 = data"
proof -
  have "Suc 0 \<le> length data" using assms(1) by (cases data) simp_all
  then have "(length data + 499) div 500 = 1"
    using assms(2) by (intro div_nat_eqI) simp_all
  then show "nChunks data = 1"
    by (simp add: nChunks_def batchSize_def)
  show "chunkAt data 0 = data"
    using assms by (simp add: chunkAt_def batchSize_def)
qed


lemma set_queued:
  "w \<in> set (queued env c mode ex xs) \<longleftrightarrow>
     (\<exists>it \<in> set xs. queuedOp env c mode ex it = Some w)"
  by (force simp: queued_def map_filter_def image_iff)

lemma queuedOp_Some:
  "queuedOp env c mode ex it = Some w \<longleftrightarrow>
     \<not> isSkipped mode ex it \<and> \<not> setRejects env (docData it)
     \<and> (\<exists>docRef. doc c (docId it) = Some docRef
            \<and> w = SetOp docRef (docData it) (mode = ''force''))"
  by (cases "doc c (docId it)") (auto simp: queuedOp_def)

lemma set_batchOf:
  "w \<in> set (batchOf env db c data mode j) \<Longrightarrow>
     \<exists>it \<in> set data. \<not> isSkipped mode (existingFor env db c mode) it
        \<and> \<not> setRejects env (docData it)
        \<and> doc c (docId it) = Some (target w) \<and> opData w = docData it"
  using set_chunkAt [of data j]
  by (auto simp: batchOf_def set_queued queuedOp_Some target_def opData_def)


lemma setOps_accepted:
  "setOps env c m chunk
     = map (\<lambda>it. SetOp (the (doc c (docId it))) (docData it) m) (filter (accepted env c) chunk)"
  by (induction chunk) (auto simp: setOps_def map_filter_def accepted_def)

lemma setOps_append: "setOps env c m (xs @ ys) = setOps env c m xs @ setOps env c m ys"
  by (simp add: setOps_accepted)






text \<open>
  Claim C1 fails on the code, which says of itself that update mode only adds new
  documents and skips existing ones. Two calls in update mode on a collection that holds
  the document \<^verbatim>\<open>p\<close>. In the first the key scan throws: \<^verbatim>\<open>getExistingDocIds\<close> returns the
  empty set, nothing is skipped, and the record with the key \<^verbatim>\<open>p\<close> replaces the document.
  In the second the scan succeeds and the records have the ids \<^verbatim>\<open>p\<close> and \<^verbatim>\<open>p/\<close>: the first
  is skipped, the second is not in the set of existing ids, addresses the same document,
  and replaces it.
\<close>

theorem update_overwrites_existing:
  "((\<lambda>n. Map.empty)(''prompts'' := [''p'' \<mapsto> [(''title'', JStr ''old'')]])) ''prompts'' ''p''
     = Some [(''title'', JStr ''old'')]
   \<and> store (batchWriteToFirestore \<lparr>scanFails = True, commitFails = (\<lambda>j. False),
       setRejects = (\<lambda>fs. False)\<rparr>
            ((\<lambda>n. Map.empty)(''prompts'' := [''p'' \<mapsto> [(''title'', JStr ''old'')]]))
            ''prompts''
            [\<lparr>docId = JStr ''p'', docData = [(''title'', JStr ''new'')]\<rparr>]
            ''update'') ''prompts'' ''p''
     = Some [(''title'', JStr ''new'')]
   \<and> skippedCount (batchWriteToFirestore \<lparr>scanFails = True, commitFails = (\<lambda>j. False),
       setRejects = (\<lambda>fs. False)\<rparr>
            ((\<lambda>n. Map.empty)(''prompts'' := [''p'' \<mapsto> [(''title'', JStr ''old'')]]))
            ''prompts''
            [\<lparr>docId = JStr ''p'', docData = [(''title'', JStr ''new'')]\<rparr>]
            ''update'') = 0
   \<and> store (batchWriteToFirestore \<lparr>scanFails = False, commitFails = (\<lambda>j. False),
       setRejects = (\<lambda>fs. False)\<rparr>
            ((\<lambda>n. Map.empty)(''prompts'' := [''p'' \<mapsto> [(''title'', JStr ''old'')]]))
            ''prompts''
            [\<lparr>docId = JStr ''p'', docData = [(''title'', JStr ''new'')]\<rparr>,
             \<lparr>docId = JStr ''p/'', docData = [(''title'', JStr ''newer'')]\<rparr>]
            ''update'') ''prompts'' ''p''
     = Some [(''title'', JStr ''newer'')]
   \<and> skippedCount (batchWriteToFirestore \<lparr>scanFails = False, commitFails = (\<lambda>j. False),
       setRejects = (\<lambda>fs. False)\<rparr>
            ((\<lambda>n. Map.empty)(''prompts'' := [''p'' \<mapsto> [(''title'', JStr ''old'')]]))
            ''prompts''
            [\<lparr>docId = JStr ''p'', docData = [(''title'', JStr ''new'')]\<rparr>,
             \<lparr>docId = JStr ''p/'', docData = [(''title'', JStr ''newer'')]\<rparr>]
            ''update'') = 1"
proof -
  let ?fails = "\<lparr>scanFails = True, commitFails = (\<lambda>j. False), setRejects = (\<lambda>fs. False)\<rparr>"
  let ?env = "\<lparr>scanFails = False, commitFails = (\<lambda>j. False), setRejects = (\<lambda>fs. False)\<rparr>"
  let ?db = "(\<lambda>n. Map.empty)(''prompts'' := [''p'' \<mapsto> [(''title'', JStr ''old'')]])"
  let ?one = "[\<lparr>docId = JStr ''p'', docData = [(''title'', JStr ''new'')]\<rparr>]"
  let ?two = "[\<lparr>docId = JStr ''p'', docData = [(''title'', JStr ''new'')]\<rparr>,
               \<lparr>docId = JStr ''p/'', docData = [(''title'', JStr ''newer'')]\<rparr>]"
  have pl: "plain ''prompts''" "plain ''p''"
    by (simp_all add: plain_def)
  have same: "doc ''prompts'' (JStr ''p/'') = Some (''prompts'', ''p'')"
    by (simp add: doc_def collectionPath_plain [OF pl(1)] validateResourcePath_def
          segments_def)
  have old: "?db ''prompts'' ''p'' = Some [(''title'', JStr ''old'')]"
    by simp
  have ex1: "existingFor ?fails ?db ''prompts'' ''update'' = {}"
    by (simp add: existingFor_def existing_plain [OF pl(1)])
  have q1: "batchOf ?fails ?db ''prompts'' ?one ''update'' 0
             = [SetOp (''prompts'', ''p'') [(''title'', JStr ''new'')] False]"
    by (simp add: batchOf_def ex1 single_chunk queued_def map_filter_def queuedOp_def
          isSkipped_def has_def doc_plain [OF pl])
  have "store (batchWriteToFirestore ?fails ?db ''prompts'' ?one ''update'')
          = applyOp (SetOp (''prompts'', ''p'') [(''title'', JStr ''new'')] False) ?db"
    by (simp add: writer_store single_chunk q1)
  then have a: "store (batchWriteToFirestore ?fails ?db ''prompts'' ?one ''update'')
                  ''prompts'' ''p'' = Some [(''title'', JStr ''new'')]"
    by (simp add: applyOp_at)
  have b: "skippedCount (batchWriteToFirestore ?fails ?db ''prompts'' ?one ''update'') = 0"
    by (simp add: writer_skipped ex1 isSkipped_def has_def)
  have ex2: "existingFor ?env ?db ''prompts'' ''update'' = {''p''}"
    by (auto simp: existingFor_def existing_plain [OF pl(1)] split: if_splits)
  have q2: "batchOf ?env ?db ''prompts'' ?two ''update'' 0
             = [SetOp (''prompts'', ''p'') [(''title'', JStr ''newer'')] False]"
    by (simp add: batchOf_def ex2 single_chunk queued_def map_filter_def queuedOp_def
          isSkipped_def has_def same)
  have "store (batchWriteToFirestore ?env ?db ''prompts'' ?two ''update'')
          = applyOp (SetOp (''prompts'', ''p'') [(''title'', JStr ''newer'')] False) ?db"
    by (simp add: writer_store single_chunk q2)
  then have c: "store (batchWriteToFirestore ?env ?db ''prompts'' ?two ''update'')
                  ''prompts'' ''p'' = Some [(''title'', JStr ''newer'')]"
    by (simp add: applyOp_at)
  have d: "skippedCount (batchWriteToFirestore ?env ?db ''prompts'' ?two ''update'') = 1"
    by (simp add: writer_skipped ex2 isSkipped_def has_def)
  show ?thesis
    by (intro conjI) (fact old a b c d)+
qed



section \<open>Properties of the migrations\<close>

lemma pushed_Cons:
  "pushed f (entry # entries)
     = (case f entry of Inl e \<Rightarrow> [] | Inr None \<Rightarrow> [] | Inr (Some r) \<Rightarrow> [r]) @ pushed f entries"
  by (simp add: pushed_def map_filter_def split: sum.splits option.splits)

lemma forEachPush_Inr:
  "forEachPush f entries acc = Inr acc' \<Longrightarrow>
     acc' = acc @ pushed f entries \<and> (\<forall>entry \<in> set entries. \<not> isl (f entry))"
proof (induction entries arbitrary: acc)
  case Nil
  then show ?case by (simp add: pushed_def map_filter_def)
next
  case (Cons entry entries)
  show ?case
  proof (cases "f entry")
    case (Inl e)
    with Cons.prems show ?thesis by simp
  next
    case (Inr r)
    show ?thesis
    proof (cases r)
      case None
      with Inr Cons.prems have "forEachPush f entries acc = Inr acc'" by simp
      from Cons.IH [OF this] Inr None show ?thesis
        by (simp add: pushed_Cons)
    next
      case (Some x)
      with Inr Cons.prems have "forEachPush f entries (acc @ [x]) = Inr acc'" by simp
      from Cons.IH [OF this] Inr Some show ?thesis
        by (simp add: pushed_Cons)
    qed
  qed
qed

lemma forEachPush_total:
  "(\<forall>entry \<in> set entries. \<not> isl (f entry))
     \<Longrightarrow> forEachPush f entries acc = Inr (acc @ pushed f entries)"
proof (induction entries arbitrary: acc)
  case Nil
  then show ?case by (simp add: pushed_def map_filter_def)
next
  case (Cons entry entries)
  then show ?case
    by (cases "f entry") (auto simp: pushed_Cons split: option.splits)
qed

lemma readAll_Inr:
  "readAll storage f fileNames acc = Inr acc' \<Longrightarrow>
     acc' = acc @ concat (map (\<lambda>fileName. pushed (f fileName) (fileEntries storage fileName))
                            fileNames)
     \<and> (\<forall>fileName \<in> set fileNames. \<forall>entry \<in> set (fileEntries storage fileName).
           \<not> isl (f fileName entry))"
proof (induction fileNames arbitrary: acc)
  case Nil
  then show ?case by simp
next
  case (Cons fileName fileNames)
  from Cons.prems obtain rawData entries mid where
    s1: "fetchJSONFromStorage storage fileName = Inr rawData"
    and s2: "extractArrayFromJSON rawData fileName = Inr entries"
    and s3: "forEachPush (f fileName) entries acc = Inr mid"
    and s4: "readAll storage f fileNames mid = Inr acc'"
    by (auto split: sum.splits)
  have fe: "fileEntries storage fileName = entries"
    by (simp add: fileEntries_def s1 s2)
  from forEachPush_Inr [OF s3] Cons.IH [OF s4] fe
  show ?case by simp
qed

lemma docIdOf_cases:
  "docIdOf entry = (if entry = JNull then Inl TypeError
                    else Inr (if truthy_opt (map_of (objFields entry) ''_id'')
                              then map_of (objFields entry) ''_id''
                              else map_of (objFields entry) ''id''))"
  by (cases entry) (simp_all add: docIdOf_def getProp_def)

lemma plainEntry_pushes:
  "\<not> isl (plainEntry entry) \<Longrightarrow> (\<exists>r. plainEntry entry = Inr (Some r)) \<longleftrightarrow> hasDocId entry"
  by (auto simp: plainEntry_def docIdOf_cases hasDocId_def split: if_splits option.splits)

lemma promptEntry_pushes:
  "\<not> isl (promptEntry cid entry)
     \<Longrightarrow> (\<exists>r. promptEntry cid entry = Inr (Some r)) \<longleftrightarrow> hasDocId entry"
  by (auto simp: promptEntry_def docIdOf_cases hasDocId_def split: if_splits option.splits)

lemma length_pushed:
  assumes "\<And>entry. entry \<in> set entries \<Longrightarrow>
             \<not> isl (f entry) \<and> ((\<exists>r. f entry = Inr (Some r)) \<longleftrightarrow> hasDocId entry)"
  shows "length (pushed f entries) = length (filter hasDocId entries)"
  using assms
proof (induction entries)
  case Nil
  then show ?case by (simp add: pushed_def map_filter_def)
next
  case (Cons entry entries)
  then have IH: "length (pushed f entries) = length (filter hasDocId entries)"
    by simp
  from Cons.prems [of entry] have "\<not> isl (f entry)"
    and "(\<exists>r. f entry = Inr (Some r)) \<longleftrightarrow> hasDocId entry"
    by simp_all
  then show ?case
    using IH by (cases "f entry") (auto simp: pushed_Cons split: option.splits)
qed

lemma length_readAll:
  assumes "readAll storage f fileNames [] = Inr allData"
    and "\<And>fileName entry. \<not> isl (f fileName entry)
           \<Longrightarrow> (\<exists>r. f fileName entry = Inr (Some r)) \<longleftrightarrow> hasDocId entry"
  shows "length allData = length (filter hasDocId (inputRecords storage fileNames))"
proof -
  from readAll_Inr [OF assms(1)]
  have all: "allData = concat (map (\<lambda>fileName. pushed (f fileName) (fileEntries storage fileName))
                                 fileNames)"
    and ok: "\<forall>fileName \<in> set fileNames. \<forall>entry \<in> set (fileEntries storage fileName).
               \<not> isl (f fileName entry)"
    by simp_all
  have "length (pushed (f fileName) (fileEntries storage fileName))
          = length (filter hasDocId (fileEntries storage fileName))"
    if "fileName \<in> set fileNames" for fileName
    using that ok assms(2) by (intro length_pushed) blast
  then have "map (\<lambda>fileName. length (pushed (f fileName) (fileEntries storage fileName))) fileNames
               = map (\<lambda>fileName. length (filter hasDocId (fileEntries storage fileName))) fileNames"
    by simp
  then have "sum_list (map (\<lambda>fileName. length (pushed (f fileName) (fileEntries storage fileName)))
                         fileNames)
               = sum_list (map (\<lambda>fileName. length (filter hasDocId (fileEntries storage fileName)))
                            fileNames)"
    by (rule arg_cong)
  then show ?thesis
    by (simp add: all inputRecords_def length_concat filter_concat comp_def)
qed

lemma no_id_fields:
  assumes "''_id'' \<notin> fst ` set kvs" "''id'' \<notin> fst ` set kvs"
  shows "\<not> hasDocId (JObj kvs)" "plainEntry (JObj kvs) = Inr None"
    "promptEntry cid (JObj kvs) = Inr None"
proof -
  have none: "map_of kvs ''_id'' = None" "map_of kvs ''id'' = None"
    using assms by (simp_all add: map_of_eq_None_iff)
  then show "\<not> hasDocId (JObj kvs)"
    by (simp add: hasDocId_def objFields_def)
  from none show "plainEntry (JObj kvs) = Inr None"
    by (simp add: plainEntry_def docIdOf_cases objFields_def)
  from none show "promptEntry cid (JObj kvs) = Inr None"
    by (simp add: promptEntry_def docIdOf_cases objFields_def)
qed

lemma migration_counts:
  assumes "readAll storage f fileNames [] = Inr allData"
    and "\<And>fileName entry. \<not> isl (f fileName entry)
           \<Longrightarrow> (\<exists>r. f fileName entry = Inr (Some r)) \<longleftrightarrow> hasDocId entry"
  shows "successCount (batchWriteToFirestore env db c allData mode)
         + errorCount (batchWriteToFirestore env db c allData mode)
         + skippedCount (batchWriteToFirestore env db c allData mode)
         = length (filter hasDocId (inputRecords storage fileNames))"
  using length_readAll [OF assms] by (simp add: writer_total)

lemma migrate_sum:
  assumes "migrateCategories env storage db fileNames mode = Inr w
           \<or> migratePrompts env toLowerCase storage db fileNames categoryMapping mode = Inr w
           \<or> migratePromptDetails env storage db fileNames mode = Inr w"
  shows "successCount w + errorCount w + skippedCount w
           = length (filter hasDocId (inputRecords storage fileNames))"
proof (cases "fileNames = []")
  case True
  with assms have "w = noWrites db"
    by (auto simp: migrateCategories_def migratePrompts_def migratePromptDetails_def)
  with True show ?thesis
    by (simp add: noWrites_def inputRecords_def)
next
  case False
  from assms consider
    (categories) "migrateCategories env storage db fileNames mode = Inr w"
    | (prompts) "migratePrompts env toLowerCase storage db fileNames categoryMapping mode = Inr w"
    | (details) "migratePromptDetails env storage db fileNames mode = Inr w"
    by blast
  then show ?thesis
  proof cases
    case categories
    with False obtain allData where
      "readAll storage (\<lambda>fileName. plainEntry) fileNames [] = Inr allData"
      "w = batchWriteToFirestore env db ''categories'' allData mode"
      by (auto simp: migrateCategories_def split: sum.splits)
    then show ?thesis
      using migration_counts [of storage "\<lambda>fileName. plainEntry" fileNames allData]
      by (simp add: plainEntry_pushes)
  next
    case prompts
    with False obtain allData where
      "readAll storage (\<lambda>fileName. promptEntry (linkCategory toLowerCase categoryMapping fileName))
         fileNames [] = Inr allData"
      "w = batchWriteToFirestore env db ''prompts'' allData mode"
      by (auto simp: migratePrompts_def split: sum.splits)
    then show ?thesis
      using migration_counts
              [of storage "\<lambda>fileName. promptEntry (linkCategory toLowerCase categoryMapping fileName)"
                  fileNames allData]
      by (simp add: promptEntry_pushes)
  next
    case details
    with False obtain allData where
      "readAll storage (\<lambda>fileName. plainEntry) fileNames [] = Inr allData"
      "w = batchWriteToFirestore env db ''promptDetails'' allData mode"
      by (auto simp: migratePromptDetails_def split: sum.splits)
    then show ?thesis
      using migration_counts [of storage "\<lambda>fileName. plainEntry" fileNames allData]
      by (simp add: plainEntry_pushes)
  qed
qed

text \<open>
  Claim C10. In each of the three v2 migrations, a record that has neither an \<^verbatim>\<open>_id\<close> nor
  an \<^verbatim>\<open>id\<close> field is not pushed to the list that is written. When the migration returns,
  the three counters add up to the number of input records that have a truthy \<^verbatim>\<open>_id\<close> or
  \<^verbatim>\<open>id\<close>, so a record without one is in none of them and the sum is strictly less than
  the number of input records as soon as there is such a record.
\<close>

theorem records_without_id_uncounted:
  assumes "migrateCategories env storage db fileNames mode = Inr w
           \<or> migratePrompts env toLowerCase storage db fileNames categoryMapping mode = Inr w
           \<or> migratePromptDetails env storage db fileNames mode = Inr w"
  shows "successCount w + errorCount w + skippedCount w
           = length (filter hasDocId (inputRecords storage fileNames))
   \<and> successCount w + errorCount w + skippedCount w \<le> length (inputRecords storage fileNames)
   \<and> ((\<exists>entry \<in> set (inputRecords storage fileNames). \<not> hasDocId entry)
        \<longrightarrow> successCount w + errorCount w + skippedCount w
            < length (inputRecords storage fileNames))
   \<and> (\<forall>kvs cid. ''_id'' \<notin> fst ` set kvs \<and> ''id'' \<notin> fst ` set kvs
        \<longrightarrow> \<not> hasDocId (JObj kvs) \<and> plainEntry (JObj kvs) = Inr None
            \<and> promptEntry cid (JObj kvs) = Inr None)"
proof (intro conjI allI impI)
  show total: "successCount w + errorCount w + skippedCount w
                 = length (filter hasDocId (inputRecords storage fileNames))"
    using assms by (rule migrate_sum)
  show "successCount w + errorCount w + skippedCount w \<le> length (inputRecords storage fileNames)"
    by (simp add: total)
  show "successCount w + errorCount w + skippedCount w < length (inputRecords storage fileNames)"
    if "\<exists>entry \<in> set (inputRecords storage fileNames). \<not> hasDocId entry"
  proof -
    from that obtain entry where
      "entry \<in> set (inputRecords storage fileNames)" "\<not> hasDocId entry"
      by blast
    then have "length (filter hasDocId (inputRecords storage fileNames))
                 < length (inputRecords storage fileNames)"
      by (rule length_filter_less)
    then show ?thesis
      by (simp only: total)
  qed
next
  fix kvs :: fields and cid
  assume "''_id'' \<notin> fst ` set kvs \<and> ''id'' \<notin> fst ` set kvs"
  then show "\<not> hasDocId (JObj kvs)" "plainEntry (JObj kvs) = Inr None"
    "promptEntry cid (JObj kvs) = Inr None"
    by (simp_all add: no_id_fields)
qed

theorem records_without_id_uncounted_witness:
  "migrateCategories \<lparr>scanFails = False, commitFails = (\<lambda>j. False),
       setRejects = (\<lambda>fs. False)\<rparr>
     (\<lambda>path. if path = ''data/pt_category.json''
               then Contents (JArr [JObj [(''_id'', JStr ''c1''), (''name'', JStr ''Music'')],
                                    JObj [(''name'', JStr ''Lost'')]])
               else NoFile)
     (\<lambda>n. Map.empty) [''pt_category.json''] ''update''
     = Inr (batchWriteToFirestore \<lparr>scanFails = False, commitFails = (\<lambda>j. False),
       setRejects = (\<lambda>fs. False)\<rparr>
              (\<lambda>n. Map.empty) ''categories''
              [\<lparr>docId = JStr ''c1'',
                docData = [(''name'', JStr ''Music''), (''createdAt'', ServerTimestamp),
                           (''updatedAt'', ServerTimestamp)]\<rparr>] ''update'')
   \<and> length (inputRecords
        (\<lambda>path. if path = ''data/pt_category.json''
                  then Contents (JArr [JObj [(''_id'', JStr ''c1''), (''name'', JStr ''Music'')],
                                       JObj [(''name'', JStr ''Lost'')]])
                  else NoFile) [''pt_category.json'']) = 2
   \<and> successCount (batchWriteToFirestore \<lparr>scanFails = False, commitFails = (\<lambda>j. False),
       setRejects = (\<lambda>fs. False)\<rparr>
              (\<lambda>n. Map.empty) ''categories''
              [\<lparr>docId = JStr ''c1'',
                docData = [(''name'', JStr ''Music''), (''createdAt'', ServerTimestamp),
                           (''updatedAt'', ServerTimestamp)]\<rparr>] ''update'')
     + errorCount (batchWriteToFirestore \<lparr>scanFails = False, commitFails = (\<lambda>j. False),
       setRejects = (\<lambda>fs. False)\<rparr>
              (\<lambda>n. Map.empty) ''categories''
              [\<lparr>docId = JStr ''c1'',
                docData = [(''name'', JStr ''Music''), (''createdAt'', ServerTimestamp),
                           (''updatedAt'', ServerTimestamp)]\<rparr>] ''update'')
     + skippedCount (batchWriteToFirestore \<lparr>scanFails = False, commitFails = (\<lambda>j. False),
       setRejects = (\<lambda>fs. False)\<rparr>
              (\<lambda>n. Map.empty) ''categories''
              [\<lparr>docId = JStr ''c1'',
                docData = [(''name'', JStr ''Music''), (''createdAt'', ServerTimestamp),
                           (''updatedAt'', ServerTimestamp)]\<rparr>] ''update'') = 1"
proof -
  let ?env = "\<lparr>scanFails = False, commitFails = (\<lambda>j. False),
       setRejects = (\<lambda>fs. False)\<rparr>"
  let ?entries = "[JObj [(''_id'', JStr ''c1''), (''name'', JStr ''Music'')],
                   JObj [(''name'', JStr ''Lost'')]]"
  let ?storage = "\<lambda>path. if path = ''data/pt_category.json''
                            then Contents (JArr ?entries) else NoFile"
  let ?W = "batchWriteToFirestore ?env (\<lambda>n. Map.empty) ''categories''
              [\<lparr>docId = JStr ''c1'',
                docData = [(''name'', JStr ''Music''), (''createdAt'', ServerTimestamp),
                           (''updatedAt'', ServerTimestamp)]\<rparr>] ''update''"
  have run: "migrateCategories ?env ?storage (\<lambda>n. Map.empty) [''pt_category.json''] ''update''
               = Inr ?W"
    by (simp add: migrateCategories_def fetchJSONFromStorage_def extractArrayFromJSON_def
          extractArrayWith_def plainEntry_def docIdOf_cases objFields_def cleanData_def
          withTimestamps_def)
  have inputs: "inputRecords ?storage [''pt_category.json''] = ?entries"
    by (simp add: inputRecords_def fileEntries_def fetchJSONFromStorage_def
          extractArrayFromJSON_def extractArrayWith_def)
  have ids: "filter hasDocId ?entries = [JObj [(''_id'', JStr ''c1''), (''name'', JStr ''Music'')]]"
    by (simp add: hasDocId_def objFields_def)
  have "successCount ?W + errorCount ?W + skippedCount ?W
          = length (filter hasDocId (inputRecords ?storage [''pt_category.json'']))"
    using records_without_id_uncounted
            [where env = ?env and storage = ?storage and db = "\<lambda>n. Map.empty"
               and fileNames = "[''pt_category.json'']" and mode = "''update''" and w = ?W
               and categoryMapping = None and toLowerCase = lowerASCII]
          run
    by blast
  then have sum: "successCount ?W + errorCount ?W + skippedCount ?W = 1"
    by (simp only: inputs ids) simp
  have len: "length (inputRecords ?storage [''pt_category.json'']) = 2"
    by (simp only: inputs) simp
  show ?thesis
    by (intro conjI) (fact run len sum)+
qed

subsection \<open>Category linking\<close>

lemma matchHere_pattern:
  assumes "name \<noteq> []" "\<not> hasLineTerminator name"
  shows "matchHere prefix (prefix @ name @ ''.json'') = Some name"
proof -
  have "6 \<le> length (name @ ''.json'')"
    using assms(1) by (cases name) simp_all
  then show ?thesis
    using assms(2) by (simp add: matchHere_def Let_def)
qed

lemma leftmost_first: "m s = Some g \<Longrightarrow> leftmost m s = Some g"
  by (cases s) simp_all

lemma promptsCategoryName_pattern:
  assumes "name \<noteq> []" "\<not> hasLineTerminator name"
  shows "promptsCategoryName (''prompts_'' @ name @ ''.json'') = Some name"
  unfolding promptsCategoryName_def
  using matchHere_pattern [OF assms, of "''prompts_''"] by (rule leftmost_first)

lemma extractCategoryName_pattern:
  assumes "name \<noteq> []" "\<not> hasLineTerminator name"
  shows "extractCategoryName (''prompts_'' @ name @ ''.json'') = Some name"
  unfolding extractCategoryName_def
  using matchHere_pattern [OF assms, of "''prompts_''"]
  by (intro leftmost_first) simp

lemma matchHere_group:
  "matchHere prefix s = Some g \<Longrightarrow> g \<noteq> [] \<and> \<not> hasLineTerminator g"
  by (auto simp: matchHere_def Let_def split: if_splits)

lemma leftmost_group:
  "leftmost m s = Some g \<Longrightarrow> \<exists>t. m t = Some g"
  by (induction s) (auto split: option.splits)

lemma promptsCategoryName_group:
  "promptsCategoryName fileName = Some name \<Longrightarrow> name \<noteq> [] \<and> \<not> hasLineTerminator name"
  unfolding promptsCategoryName_def
  by (auto dest!: leftmost_group matchHere_group)

lemma readProperty_own: "key \<notin> set objectPrototypeKeys \<Longrightarrow> readProperty m key = m key"
  by (simp add: readProperty_def split: option.splits)

lemma map_of_filter_key:
  "map_of (filter (\<lambda>(k, v). Q k) al) key = (if Q key then map_of al key else None)"
  by (induction al) auto

lemma cleanData_categoryId:
  "map_of (cleanData entry) ''categoryId'' = map_of (objFields entry) ''categoryId''"
  by (simp add: cleanData_def map_of_filter_key)

lemma withTimestamps_other:
  "key \<noteq> ''createdAt'' \<Longrightarrow> key \<noteq> ''updatedAt''
     \<Longrightarrow> map_of (withTimestamps fs) key = map_of fs key"
  by (simp add: withTimestamps_def update_conv')

lemma promptEntry_linked:
  assumes "promptEntry (Some cid) entry = Inr (Some r)" "truthy cid"
  shows "map_of (docData r) ''categoryId'' = Some cid"
  using assms
  by (auto simp: promptEntry_def withTimestamps_other update_conv'
        split: sum.splits option.splits if_splits)

lemma promptEntry_unlinked:
  assumes "promptEntry categoryId entry = Inr (Some r)" "\<not> truthy_opt categoryId"
  shows "map_of (docData r) ''categoryId'' = map_of (objFields entry) ''categoryId''"
  using assms
  by (cases categoryId)
     (auto simp: promptEntry_def withTimestamps_other cleanData_categoryId
        split: sum.splits option.splits if_splits)

lemma promptEntry_isl: "isl (promptEntry a entry) = isl (promptEntry b entry)"
  by (simp add: promptEntry_def split: sum.splits option.splits)

lemma forEachPush_isl:
  assumes "\<And>entry. isl (f entry) = isl (g entry)"
    and "\<And>entry. (f entry = Inr None) = (g entry = Inr None)"
  shows "isl (forEachPush f entries acc) = isl (forEachPush g entries acc')"
proof (induction entries arbitrary: acc acc')
  case Nil
  then show ?case by simp
next
  case (Cons entry entries)
  show ?case
  proof (cases "f entry")
    case (Inl e)
    with assms(1) [of entry] obtain e' where "g entry = Inl e'"
      by (cases "g entry") simp_all
    with Inl show ?thesis by simp
  next
    case (Inr x)
    with assms(1) [of entry] obtain y where g: "g entry = Inr y"
      by (cases "g entry") simp_all
    show ?thesis
    proof (cases x)
      case None
      with Inr assms(2) [of entry] g have "y = None" by simp
      with Inr None g Cons.IH show ?thesis by simp
    next
      case (Some r)
      with Inr assms(2) [of entry] g obtain r' where "y = Some r'"
        by (cases y) simp_all
      with Inr Some g Cons.IH show ?thesis by simp
    qed
  qed
qed

lemma promptEntry_None: "(promptEntry a entry = Inr None) = (promptEntry b entry = Inr None)"
  by (simp add: promptEntry_def split: sum.splits option.splits)

lemma readAll_isl:
  "isl (readAll storage (\<lambda>fileName. promptEntry (a fileName)) fileNames acc)
     = isl (readAll storage (\<lambda>fileName. promptEntry (b fileName)) fileNames acc')"
proof (induction fileNames arbitrary: acc acc')
  case Nil
  then show ?case by simp
next
  case (Cons fileName fileNames)
  show ?case
  proof (cases "fetchJSONFromStorage storage fileName")
    case (Inl e)
    then show ?thesis by simp
  next
    case fetched: (Inr rawData)
    show ?thesis
    proof (cases "extractArrayFromJSON rawData fileName")
      case (Inl e)
      with fetched show ?thesis by simp
    next
      case (Inr entries)
      have same: "isl (forEachPush (promptEntry (a fileName)) entries acc)
                    = isl (forEachPush (promptEntry (b fileName)) entries acc')"
        by (intro forEachPush_isl promptEntry_isl promptEntry_None)
      show ?thesis
      proof (cases "forEachPush (promptEntry (a fileName)) entries acc")
        case (Inl e)
        with same obtain e' where
          "forEachPush (promptEntry (b fileName)) entries acc' = Inl e'"
          by (cases "forEachPush (promptEntry (b fileName)) entries acc'") simp_all
        with Inl fetched Inr show ?thesis by simp
      next
        case mid: (Inr mid)
        with same obtain mid' where
          "forEachPush (promptEntry (b fileName)) entries acc' = Inr mid'"
          by (cases "forEachPush (promptEntry (b fileName)) entries acc'") simp_all
        with mid fetched Inr Cons.IH [of mid mid'] show ?thesis by simp
      qed
    qed
  qed
qed

lemma migratePrompts_isl:
  "isl (migratePrompts env toLowerCase storage db fileNames a mode)
     = isl (migratePrompts env toLowerCase storage db fileNames b mode)"
proof -
  have "isl (case r of Inl e \<Rightarrow> Inl e
                     | Inr allData \<Rightarrow> Inr (batchWriteToFirestore env db ''prompts'' allData mode))
          = isl r" for r :: "error + item list"
    by (cases r) simp_all
  then show ?thesis
    using readAll_isl [of storage "linkCategory toLowerCase a" fileNames "[]"
                          "linkCategory toLowerCase b" "[]"]
    by (simp add: migratePrompts_def)
qed

lemma set_pushed:
  "r \<in> set (pushed f entries) \<longleftrightarrow> (\<exists>entry \<in> set entries. f entry = Inr (Some r))"
proof (induction entries)
  case Nil
  then show ?case by (simp add: pushed_def map_filter_def)
next
  case (Cons entry entries)
  then show ?case
    by (auto simp: pushed_Cons split: sum.splits option.splits)
qed

lemma migratePrompts_Inr:
  assumes "migratePrompts env toLowerCase storage db fileNames categoryMapping mode = Inr w"
  shows "w = batchWriteToFirestore env db ''prompts''
               (concat (map (\<lambda>fn. pushed (promptEntry (linkCategory toLowerCase categoryMapping fn))
                                    (fileEntries storage fn)) fileNames)) mode"
proof (cases "fileNames = []")
  case True
  with assms show ?thesis
    by (simp add: migratePrompts_def noWrites_def batchWriteToFirestore_def)
next
  case False
  let ?f = "\<lambda>fileName. promptEntry (linkCategory toLowerCase categoryMapping fileName)"
  from assms False obtain allData where
    rd: "readAll storage ?f fileNames [] = Inr allData"
    and w: "w = batchWriteToFirestore env db ''prompts'' allData mode"
    by (auto simp: migratePrompts_def split: sum.splits)
  from readAll_Inr [OF rd]
  have "allData = concat (map (\<lambda>fn. pushed (?f fn) (fileEntries storage fn)) fileNames)"
    by simp
  with w show ?thesis by simp
qed

lemma migratePrompts_ops:
  assumes "migratePrompts env toLowerCase storage db fileNames categoryMapping mode = Inr w"
    and "(ops, ok) \<in> set (commits w)" "w' \<in> set ops"
  shows "\<exists>fn \<in> set fileNames. \<exists>entry \<in> set (fileEntries storage fn). \<exists>r.
           promptEntry (linkCategory toLowerCase categoryMapping fn) entry = Inr (Some r)
           \<and> opData w' = docData r \<and> doc ''prompts'' (docId r) = Some (target w')"
proof -
  let ?f = "\<lambda>fn. promptEntry (linkCategory toLowerCase categoryMapping fn)"
  let ?all = "concat (map (\<lambda>fn. pushed (?f fn) (fileEntries storage fn)) fileNames)"
  have w: "w = batchWriteToFirestore env db ''prompts'' ?all mode"
    using assms(1) by (rule migratePrompts_Inr)
  from assms(2) obtain j where "ops = batchOf env db ''prompts'' ?all mode j"
    by (auto simp: w writer_commits)
  with assms(3) set_batchOf [of w' env db "''prompts''" ?all mode j]
  obtain r where r: "r \<in> set ?all" "opData w' = docData r"
    "doc ''prompts'' (docId r) = Some (target w')"
    by blast
  from r(1) obtain fn where fn: "fn \<in> set fileNames"
    "r \<in> set (pushed (?f fn) (fileEntries storage fn))"
    by auto
  from fn(2) obtain entry where "entry \<in> set (fileEntries storage fn)"
    "?f fn entry = Inr (Some r)"
    by (auto simp: set_pushed)
  with fn(1) r(2,3) show ?thesis by blast
qed

text \<open>
  Claim C8, as the code has it. A file name of the form \<^verbatim>\<open>prompts_<Name>.json\<close> gives the
  candidate \<open>Name\<close> (not empty, on one line); the property of that name is read from the
  mapping, and the property of the lowercased name when that gives nothing truthy. Where
  neither name is one of the
  members that every object inherits, this is the entry of the mapping under \<open>Name\<close>, and
  else the one under the lowercased name. When an id is found, every record emitted from
  the file carries it as \<open>categoryId\<close>. When none is found, no \<open>categoryId\<close> is added: a
  record has that field exactly when its source record has it, with the source's value.
  A run on any list of files writes, file after file and in order, the records of each
  file emitted with the link of that file, and every operation of every commit carries the
  fields of such a record. Whether the migration fails does not depend on the mapping.
\<close>

theorem category_link:
  assumes "promptsCategoryName fileName = Some name"
  shows "name \<noteq> [] \<and> \<not> hasLineTerminator name
   \<and> (\<forall>n. n \<noteq> [] \<and> \<not> hasLineTerminator n
            \<longrightarrow> promptsCategoryName (''prompts_'' @ n @ ''.json'') = Some n)
   \<and> (truthy_opt (readProperty m name)
        \<longrightarrow> linkCategory toLowerCase (Some m) fileName = readProperty m name)
   \<and> (\<not> truthy_opt (readProperty m name)
        \<longrightarrow> linkCategory toLowerCase (Some m) fileName = readProperty m (toLowerCase name))
   \<and> (\<forall>key. key \<notin> set objectPrototypeKeys \<longrightarrow> readProperty m key = m key)
   \<and> (name \<notin> set objectPrototypeKeys \<and> toLowerCase name \<notin> set objectPrototypeKeys
        \<longrightarrow> linkCategory toLowerCase (Some m) fileName
            = (if truthy_opt (m name) then m name else m (toLowerCase name)))
   \<and> (\<forall>cid entry r. linkCategory toLowerCase categoryMapping fileName = Some cid \<and> truthy cid
          \<and> promptEntry (linkCategory toLowerCase categoryMapping fileName) entry = Inr (Some r)
        \<longrightarrow> map_of (docData r) ''categoryId'' = Some cid)
   \<and> (\<forall>entry r. \<not> truthy_opt (linkCategory toLowerCase categoryMapping fileName)
          \<and> promptEntry (linkCategory toLowerCase categoryMapping fileName) entry = Inr (Some r)
        \<longrightarrow> map_of (docData r) ''categoryId'' = map_of (objFields entry) ''categoryId'')
   \<and> (\<forall>r \<in> set (pushed (promptEntry (linkCategory toLowerCase categoryMapping fileName))
                   (fileEntries storage fileName)).
         (\<forall>cid. linkCategory toLowerCase categoryMapping fileName = Some cid \<and> truthy cid
            \<longrightarrow> map_of (docData r) ''categoryId'' = Some cid)
         \<and> (\<not> truthy_opt (linkCategory toLowerCase categoryMapping fileName)
            \<longrightarrow> (\<exists>entry \<in> set (fileEntries storage fileName).
                   map_of (docData r) ''categoryId'' = map_of (objFields entry) ''categoryId'')))
   \<and> (\<forall>w. migratePrompts env toLowerCase storage db fileNames categoryMapping mode = Inr w
        \<longrightarrow> w = batchWriteToFirestore env db ''prompts''
                  (concat (map (\<lambda>fn. pushed (promptEntry (linkCategory toLowerCase
                                                            categoryMapping fn))
                                        (fileEntries storage fn)) fileNames)) mode)
   \<and> (\<forall>w ops ok w'.
          migratePrompts env toLowerCase storage db fileNames categoryMapping mode = Inr w
          \<and> (ops, ok) \<in> set (commits w) \<and> w' \<in> set ops
        \<longrightarrow> (\<exists>fn \<in> set fileNames. \<exists>entry \<in> set (fileEntries storage fn). \<exists>r.
               promptEntry (linkCategory toLowerCase categoryMapping fn) entry = Inr (Some r)
               \<and> opData w' = docData r \<and> doc ''prompts'' (docId r) = Some (target w')))
   \<and> isl (migratePrompts env toLowerCase storage db fileNames categoryMapping mode)
       = isl (migratePrompts env toLowerCase storage db fileNames None mode)"
proof (intro conjI allI impI ballI)
  show "name \<noteq> []" "\<not> hasLineTerminator name"
    using promptsCategoryName_group [OF assms] by simp_all
next
  fix n
  assume "n \<noteq> [] \<and> \<not> hasLineTerminator n"
  then show "promptsCategoryName (''prompts_'' @ n @ ''.json'') = Some n"
    by (intro promptsCategoryName_pattern) simp_all
next
  assume "truthy_opt (readProperty m name)"
  then show "linkCategory toLowerCase (Some m) fileName = readProperty m name"
    using assms by (simp add: linkCategory_def)
next
  assume "\<not> truthy_opt (readProperty m name)"
  then show "linkCategory toLowerCase (Some m) fileName = readProperty m (toLowerCase name)"
    using assms by (simp add: linkCategory_def)
next
  fix key
  assume "key \<notin> set objectPrototypeKeys"
  then show "readProperty m key = m key"
    by (rule readProperty_own)
next
  assume "name \<notin> set objectPrototypeKeys \<and> toLowerCase name \<notin> set objectPrototypeKeys"
  then show "linkCategory toLowerCase (Some m) fileName
               = (if truthy_opt (m name) then m name else m (toLowerCase name))"
    using assms by (simp add: linkCategory_def readProperty_own)
next
  fix cid entry r
  assume h: "linkCategory toLowerCase categoryMapping fileName = Some cid \<and> truthy cid
             \<and> promptEntry (linkCategory toLowerCase categoryMapping fileName) entry
                 = Inr (Some r)"
  from h have a: "linkCategory toLowerCase categoryMapping fileName = Some cid"
    by (rule conjunct1)
  from h have b: "truthy cid"
    by (rule conjunct2 [THEN conjunct1])
  from h have c: "promptEntry (linkCategory toLowerCase categoryMapping fileName) entry
                    = Inr (Some r)"
    by (rule conjunct2 [THEN conjunct2])
  from c have "promptEntry (Some cid) entry = Inr (Some r)"
    by (simp only: a)
  then show "map_of (docData r) ''categoryId'' = Some cid"
    using b by (rule promptEntry_linked)
next
  fix entry r
  assume h: "\<not> truthy_opt (linkCategory toLowerCase categoryMapping fileName)
             \<and> promptEntry (linkCategory toLowerCase categoryMapping fileName) entry
                 = Inr (Some r)"
  show "map_of (docData r) ''categoryId'' = map_of (objFields entry) ''categoryId''"
    by (rule promptEntry_unlinked [OF h [THEN conjunct2] h [THEN conjunct1]])
next
  fix r cid
  assume r: "r \<in> set (pushed (promptEntry (linkCategory toLowerCase categoryMapping fileName))
                        (fileEntries storage fileName))"
    and h: "linkCategory toLowerCase categoryMapping fileName = Some cid \<and> truthy cid"
  from r obtain entry where
    "promptEntry (linkCategory toLowerCase categoryMapping fileName) entry = Inr (Some r)"
    by (auto simp: set_pushed)
  then have "promptEntry (Some cid) entry = Inr (Some r)"
    by (simp only: h [THEN conjunct1])
  then show "map_of (docData r) ''categoryId'' = Some cid"
    using h [THEN conjunct2] by (rule promptEntry_linked)
next
  fix r
  assume r: "r \<in> set (pushed (promptEntry (linkCategory toLowerCase categoryMapping fileName))
                        (fileEntries storage fileName))"
    and h: "\<not> truthy_opt (linkCategory toLowerCase categoryMapping fileName)"
  from r obtain entry where e: "entry \<in> set (fileEntries storage fileName)"
    "promptEntry (linkCategory toLowerCase categoryMapping fileName) entry = Inr (Some r)"
    by (auto simp: set_pushed)
  from promptEntry_unlinked [OF e(2) h] e(1)
  show "\<exists>entry \<in> set (fileEntries storage fileName).
          map_of (docData r) ''categoryId'' = map_of (objFields entry) ''categoryId''"
    by (rule bexI)
next
  fix w
  assume "migratePrompts env toLowerCase storage db fileNames categoryMapping mode = Inr w"
  then show "w = batchWriteToFirestore env db ''prompts''
                  (concat (map (\<lambda>fn. pushed (promptEntry (linkCategory toLowerCase
                                                            categoryMapping fn))
                                        (fileEntries storage fn)) fileNames)) mode"
    by (rule migratePrompts_Inr)
next
  fix w ops ok w'
  assume h: "migratePrompts env toLowerCase storage db fileNames categoryMapping mode = Inr w
             \<and> (ops, ok) \<in> set (commits w) \<and> w' \<in> set ops"
  show "\<exists>fn \<in> set fileNames. \<exists>entry \<in> set (fileEntries storage fn). \<exists>r.
          promptEntry (linkCategory toLowerCase categoryMapping fn) entry = Inr (Some r)
          \<and> opData w' = docData r \<and> doc ''prompts'' (docId r) = Some (target w')"
    by (rule migratePrompts_ops
          [OF h [THEN conjunct1] h [THEN conjunct2, THEN conjunct1]
              h [THEN conjunct2, THEN conjunct2]])
next
  show "isl (migratePrompts env toLowerCase storage db fileNames categoryMapping mode)
          = isl (migratePrompts env toLowerCase storage db fileNames None mode)"
    by (rule migratePrompts_isl)
qed

theorem category_link_witness:
  "promptsCategoryName ''prompts_Music.json'' = Some ''Music''
   \<and> linkCategory lowerASCII (Some [''music'' \<mapsto> JStr ''c1'']) ''prompts_Music.json''
       = Some (JStr ''c1'')
   \<and> linkCategory lowerASCII (Some [''music'' \<mapsto> JStr ''c1'']) ''prompts_Unknown.json'' = None
   \<and> migratePrompts \<lparr>scanFails = False, commitFails = (\<lambda>j. False),
         setRejects = (\<lambda>fs. False)\<rparr> lowerASCII
       (\<lambda>path. if path = ''data/prompts_Music.json''
                 then Contents (JArr [JObj [(''_id'', JStr ''p1''), (''title'', JStr ''Song'')]])
                 else if path = ''data/prompts_Unknown.json''
                 then Contents (JArr [JObj [(''_id'', JStr ''p2''), (''title'', JStr ''Other'')]])
                 else NoFile)
       (\<lambda>n. Map.empty) [''prompts_Music.json'', ''prompts_Unknown.json'']
       (Some [''music'' \<mapsto> JStr ''c1'']) ''fresh''
     = Inr (batchWriteToFirestore \<lparr>scanFails = False, commitFails = (\<lambda>j. False),
              setRejects = (\<lambda>fs. False)\<rparr>
              (\<lambda>n. Map.empty) ''prompts''
              [\<lparr>docId = JStr ''p1'',
                docData = [(''title'', JStr ''Song''), (''categoryId'', JStr ''c1''),
                           (''createdAt'', ServerTimestamp),
                           (''updatedAt'', ServerTimestamp)]\<rparr>,
               \<lparr>docId = JStr ''p2'',
                docData = [(''title'', JStr ''Other''), (''createdAt'', ServerTimestamp),
                           (''updatedAt'', ServerTimestamp)]\<rparr>] ''fresh'')"
proof -
  let ?m = "[''music'' \<mapsto> JStr ''c1'']"
  let ?env = "\<lparr>scanFails = False, commitFails = (\<lambda>j. False), setRejects = (\<lambda>fs. False)\<rparr>"
  let ?e1 = "JObj [(''_id'', JStr ''p1''), (''title'', JStr ''Song'')]"
  let ?e2 = "JObj [(''_id'', JStr ''p2''), (''title'', JStr ''Other'')]"
  let ?storage = "\<lambda>path. if path = ''data/prompts_Music.json'' then Contents (JArr [?e1])
                    else if path = ''data/prompts_Unknown.json'' then Contents (JArr [?e2])
                    else NoFile"
  let ?files = "[''prompts_Music.json'', ''prompts_Unknown.json'']"
  let ?r1 = "\<lparr>docId = JStr ''p1'',
             docData = [(''title'', JStr ''Song''), (''categoryId'', JStr ''c1''),
                        (''createdAt'', ServerTimestamp), (''updatedAt'', ServerTimestamp)]\<rparr>"
  let ?r2 = "\<lparr>docId = JStr ''p2'',
             docData = [(''title'', JStr ''Other''), (''createdAt'', ServerTimestamp),
                        (''updatedAt'', ServerTimestamp)]\<rparr>"
  have "promptsCategoryName (''prompts_'' @ ''Music'' @ ''.json'') = Some ''Music''"
    by (rule promptsCategoryName_pattern) (simp_all add: lineTerminators_def)
  then have name: "promptsCategoryName ''prompts_Music.json'' = Some ''Music''"
    by simp
  have "promptsCategoryName (''prompts_'' @ ''Unknown'' @ ''.json'') = Some ''Unknown''"
    by (rule promptsCategoryName_pattern) (simp_all add: lineTerminators_def)
  then have name2: "promptsCategoryName ''prompts_Unknown.json'' = Some ''Unknown''"
    by simp
  have lower: "lowerASCII ''Music'' = ''music''" "lowerASCII ''Unknown'' = ''unknown''"
    by (simp_all add: lowerASCII_def)
  have own: "''Music'' \<notin> set objectPrototypeKeys \<and> lowerASCII ''Music'' \<notin> set objectPrototypeKeys"
    "''Unknown'' \<notin> set objectPrototypeKeys \<and> lowerASCII ''Unknown'' \<notin> set objectPrototypeKeys"
    by (simp_all add: lower objectPrototypeKeys_def)
  note T = category_link [OF name, where m = ?m and toLowerCase = lowerASCII
             and categoryMapping = "Some ?m" and storage = ?storage and env = ?env
             and db = "\<lambda>n. Map.empty" and fileNames = ?files and mode = "''fresh''"]
  note U = category_link [OF name2, where m = ?m and toLowerCase = lowerASCII]
  have "linkCategory lowerASCII (Some ?m) ''prompts_Music.json''
          = (if truthy_opt (?m ''Music'') then ?m ''Music'' else ?m (lowerASCII ''Music''))"
    by (rule T [THEN conjunct2, THEN conjunct2, THEN conjunct2, THEN conjunct2,
                THEN conjunct2, THEN conjunct2, THEN conjunct1, rule_format, OF own(1)])
  then have link: "linkCategory lowerASCII (Some ?m) ''prompts_Music.json'' = Some (JStr ''c1'')"
    by (simp add: lower)
  have "linkCategory lowerASCII (Some ?m) ''prompts_Unknown.json''
          = (if truthy_opt (?m ''Unknown'') then ?m ''Unknown'' else ?m (lowerASCII ''Unknown''))"
    by (rule U [THEN conjunct2, THEN conjunct2, THEN conjunct2, THEN conjunct2,
                THEN conjunct2, THEN conjunct2, THEN conjunct1, rule_format, OF own(2)])
  then have nolink: "linkCategory lowerASCII (Some ?m) ''prompts_Unknown.json'' = None"
    by (simp add: lower)
  have run: "migratePrompts ?env lowerASCII ?storage (\<lambda>n. Map.empty) ?files (Some ?m) ''fresh''
               = Inr (batchWriteToFirestore ?env (\<lambda>n. Map.empty) ''prompts'' [?r1, ?r2] ''fresh'')"
    by (simp add: migratePrompts_def link nolink fetchJSONFromStorage_def
          extractArrayFromJSON_def extractArrayWith_def promptEntry_def docIdOf_cases
          objFields_def cleanData_def withTimestamps_def)
  show ?thesis
    by (intro conjI) (fact name link nolink run)+
qed

text \<open>The claim as the specification words it fails. When no category matches, a record
  whose source already has a \<open>categoryId\<close> is written with that field. And for a file
  named after a member that every object inherits, the lookup finds that member in a
  mapping that has no category of the name, and the record is stamped with it.\<close>

theorem unlinked_keeps_categoryId_counterexample:
  "linkCategory lowerASCII (Some (\<lambda>name. None)) ''prompts_Unknown.json'' = None
   \<and> migratePrompts \<lparr>scanFails = False, commitFails = (\<lambda>j. False),
       setRejects = (\<lambda>fs. False)\<rparr> lowerASCII
       (\<lambda>path. if path = ''data/prompts_Unknown.json''
                 then Contents (JArr [JObj [(''_id'', JStr ''p1''),
                                            (''categoryId'', JStr ''legacy'')]])
                 else NoFile)
       (\<lambda>n. Map.empty) [''prompts_Unknown.json''] (Some (\<lambda>name. None)) ''fresh''
     = Inr (batchWriteToFirestore \<lparr>scanFails = False, commitFails = (\<lambda>j. False),
       setRejects = (\<lambda>fs. False)\<rparr>
              (\<lambda>n. Map.empty) ''prompts''
              [\<lparr>docId = JStr ''p1'',
                docData = [(''categoryId'', JStr ''legacy''), (''createdAt'', ServerTimestamp),
                           (''updatedAt'', ServerTimestamp)]\<rparr>] ''fresh'')
   \<and> commits (batchWriteToFirestore \<lparr>scanFails = False, commitFails = (\<lambda>j. False),
       setRejects = (\<lambda>fs. False)\<rparr>
              (\<lambda>n. Map.empty) ''prompts''
              [\<lparr>docId = JStr ''p1'',
                docData = [(''categoryId'', JStr ''legacy''), (''createdAt'', ServerTimestamp),
                           (''updatedAt'', ServerTimestamp)]\<rparr>] ''fresh'')
     = [([SetOp (''prompts'', ''p1'')
            [(''categoryId'', JStr ''legacy''), (''createdAt'', ServerTimestamp),
             (''updatedAt'', ServerTimestamp)] False], True)]
   \<and> linkCategory lowerASCII (Some (\<lambda>name. None)) ''prompts_constructor.json''
       = Some (Inherited ''constructor'')
   \<and> promptEntry (linkCategory lowerASCII (Some (\<lambda>name. None)) ''prompts_constructor.json'')
        (JObj [(''_id'', JStr ''p1'')])
       = Inr (Some \<lparr>docId = JStr ''p1'',
                    docData = [(''categoryId'', Inherited ''constructor''),
                               (''createdAt'', ServerTimestamp),
                               (''updatedAt'', ServerTimestamp)]\<rparr>)"
proof -
  let ?env = "\<lparr>scanFails = False, commitFails = (\<lambda>j. False),
       setRejects = (\<lambda>fs. False)\<rparr>"
  let ?storage = "\<lambda>path. if path = ''data/prompts_Unknown.json''
                            then Contents (JArr [JObj [(''_id'', JStr ''p1''),
                                                       (''categoryId'', JStr ''legacy'')]])
                            else NoFile"
  let ?data = "[\<lparr>docId = JStr ''p1'',
                 docData = [(''categoryId'', JStr ''legacy''), (''createdAt'', ServerTimestamp),
                            (''updatedAt'', ServerTimestamp)]\<rparr>]"
  have "promptsCategoryName (''prompts_'' @ ''Unknown'' @ ''.json'') = Some ''Unknown''"
    by (rule promptsCategoryName_pattern) (simp_all add: lineTerminators_def)
  then have name: "promptsCategoryName ''prompts_Unknown.json'' = Some ''Unknown''"
    by simp
  have link: "linkCategory lowerASCII (Some (\<lambda>name. None)) ''prompts_Unknown.json'' = None"
    by (simp add: linkCategory_def name readProperty_def objectPrototypeKeys_def lowerASCII_def)
  have run: "migratePrompts ?env lowerASCII ?storage (\<lambda>n. Map.empty) [''prompts_Unknown.json'']
               (Some (\<lambda>name. None)) ''fresh''
               = Inr (batchWriteToFirestore ?env (\<lambda>n. Map.empty) ''prompts'' ?data ''fresh'')"
    by (simp add: migratePrompts_def link fetchJSONFromStorage_def extractArrayFromJSON_def
          extractArrayWith_def promptEntry_def docIdOf_cases objFields_def cleanData_def
          withTimestamps_def)
  have q: "batchOf ?env (\<lambda>n. Map.empty) ''prompts'' ?data ''fresh'' 0
             = [SetOp (''prompts'', ''p1'')
                  [(''categoryId'', JStr ''legacy''), (''createdAt'', ServerTimestamp),
                   (''updatedAt'', ServerTimestamp)] False]"
    by (simp add: batchOf_def single_chunk queued_def map_filter_def queuedOp_def
          isSkipped_def doc_plain plain_def)
  have log: "commits (batchWriteToFirestore ?env (\<lambda>n. Map.empty) ''prompts'' ?data ''fresh'')
               = [([SetOp (''prompts'', ''p1'')
                      [(''categoryId'', JStr ''legacy''), (''createdAt'', ServerTimestamp),
                       (''updatedAt'', ServerTimestamp)] False], True)]"
    by (simp add: writer_commits single_chunk q)
  have "promptsCategoryName (''prompts_'' @ ''constructor'' @ ''.json'') = Some ''constructor''"
    by (rule promptsCategoryName_pattern) (simp_all add: lineTerminators_def)
  then have name2: "promptsCategoryName ''prompts_constructor.json'' = Some ''constructor''"
    by simp
  have proto: "linkCategory lowerASCII (Some (\<lambda>name. None)) ''prompts_constructor.json''
                 = Some (Inherited ''constructor'')"
    by (simp add: linkCategory_def name2 readProperty_def objectPrototypeKeys_def)
  have stamped: "promptEntry (linkCategory lowerASCII (Some (\<lambda>name. None))
                                ''prompts_constructor.json'') (JObj [(''_id'', JStr ''p1'')])
       = Inr (Some \<lparr>docId = JStr ''p1'',
                    docData = [(''categoryId'', Inherited ''constructor''),
                               (''createdAt'', ServerTimestamp),
                               (''updatedAt'', ServerTimestamp)]\<rparr>)"
    by (simp only: proto)
       (simp add: promptEntry_def docIdOf_cases objFields_def cleanData_def withTimestamps_def)
  show ?thesis
    by (intro conjI) (fact link run log proto stamped)+
qed

end
